theory Spec2Isabelle
  imports Main "HOL-Library.AList" "HOL-Library.Sublist"
    "HOL-Library.Char_ord" "HOL-Library.List_Lexorder"
begin

section \<open>The environment of the REPL: src/entity/env/env.go\<close>

text \<open>
  The package \<^verbatim>\<open>env\<close> keeps the position of a user inside a catalog of packages,
  services and RPCs, a table of request headers, and derives the address (DSN) of the
  position. Every method of \<^verbatim>\<open>*Env\<close> is embedded below as a function that takes
  the environment and returns its result together with the environment it leaves behind.
\<close>

subsection \<open>Entities\<close>

text \<open>
  Modelled from the spec: the package \<^verbatim>\<open>entity\<close> (Package, Service, Message, RPC,
  Header) is imported by env.go and is not among the sources. Section 3 of the
  specification gives a package a name and ordered lists of services and messages, a
  service a name and an ordered list of RPCs, a message and an RPC a name, a header a key
  and a value. The field \<open>*_body\<close> stands for the rest of an entity, which env.go never
  reads, so that two entities of one name can differ.
  The catalog holds entities that are not nil, and nothing changes it after construction.
\<close>

record RPC =
  rpc_Name :: string
  rpc_body :: nat

record Message =
  msg_Name :: string
  msg_body :: nat

record Service =
  svc_Name :: string
  svc_RPCs :: "RPC list"
  svc_body :: nat

record Package =
  pkg_Name :: string
  pkg_Services :: "Service list"
  pkg_Messages :: "Message list"

record Header =
  Key :: string
  Val :: string

subsection \<open>Errors\<close>

text \<open>
  The seven sentinel errors of env.go. An error value is a sentinel wrapped in messages by
  \<^verbatim>\<open>errors.Wrap\<close> and \<^verbatim>\<open>errors.Wrapf\<close> of github.com/pkg/errors; \<open>Cause\<close> is what
  \<^verbatim>\<open>errors.Cause\<close> returns, \<open>Frames\<close> the messages, the outermost first.
  A frame \<open>Text s\<close> is the finished message \<open>s\<close>. A frame \<open>Format f\<close> is
  \<^verbatim>\<open>fmt.Sprintf(f)\<close> with no argument, left unevaluated: UseService passes the name of
  the service as the format itself.
\<close>

datatype err_kind =
    ErrPackageUnselected
  | ErrServiceUnselected
  | ErrUnknownPackage
  | ErrUnknownService
  | ErrInvalidServiceName
  | ErrInvalidMessageName
  | ErrInvalidRPCName

datatype frame = Text string | Format string

datatype error = Error (Cause: err_kind) (Frames: "frame list")

fun kind_text :: "err_kind \<Rightarrow> string" where
  "kind_text ErrPackageUnselected = ''package unselected''"
| "kind_text ErrServiceUnselected = ''service unselected''"
| "kind_text ErrUnknownPackage = ''unknown package''"
| "kind_text ErrUnknownService = ''unknown service''"
| "kind_text ErrInvalidServiceName = ''invalid service name''"
| "kind_text ErrInvalidMessageName = ''invalid message name''"
| "kind_text ErrInvalidRPCName = ''invalid RPC name''"

definition sentinel :: "err_kind \<Rightarrow> error" where
  "sentinel k = Error k []"

definition Wrap :: "error \<Rightarrow> string \<Rightarrow> error" where
  "Wrap err msg = Error (Cause err) (Text msg # Frames err)"

text \<open>\<^verbatim>\<open>errors.Wrapf(err, "%s not found", name)\<close>: the verb \<^verbatim>\<open>%s\<close> prints a string
  argument as it is.\<close>

definition Wrapf_not_found :: "error \<Rightarrow> string \<Rightarrow> error" where
  "Wrapf_not_found err name = Wrap err (name @ '' not found'')"

text \<open>\<^verbatim>\<open>errors.Wrapf(err, format)\<close> with no argument.\<close>

definition Wrapf_noargs :: "error \<Rightarrow> string \<Rightarrow> error" where
  "Wrapf_noargs err format = Error (Cause err) (Format format # Frames err)"

fun frame_text :: "(string \<Rightarrow> string) \<Rightarrow> frame \<Rightarrow> string" where
  "frame_text sprintf (Text s) = s"
| "frame_text sprintf (Format f) = sprintf f"

text \<open>
  The method \<^verbatim>\<open>Error()\<close> of a wrapped error: each message, a colon and a space, then
  the text of what it wraps. \<open>sprintf\<close> is \<^verbatim>\<open>fmt.Sprintf\<close> at one argument, the
  format.
\<close>

definition Error_text :: "(string \<Rightarrow> string) \<Rightarrow> error \<Rightarrow> string" where
  "Error_text sprintf err =
     foldr (\<lambda>f acc. frame_text sprintf f @ '': '' @ acc) (Frames err) (kind_text (Cause err))"

text \<open>
  What a call does: it returns a value, returns an error, or panics (a nil pointer is
  dereferenced, or \<^verbatim>\<open>panic(err)\<close> is called).
\<close>

datatype 'a result = Ok 'a | Fail error | Panic

subsection \<open>The environment\<close>

text \<open>
  The struct \<^verbatim>\<open>Env\<close>, with the fields of its three nested structs \<^verbatim>\<open>state\<close>,
  \<^verbatim>\<open>option\<close> and \<^verbatim>\<open>cache\<close> held directly. The packages are read by value.

  Headers are Go objects that the table and its callers share through pointers, so they
  live in an explicit heap: a list of headers, the address of a header being its index, and
  allocation appending to the list. Go has no dangling pointer: an address outside the heap
  stands for nil. \<open>headers\<close> is the \<^verbatim>\<open>sync.Map\<close> from a key to the pointer stored
  under it, as an association list with distinct keys whose order is the order in which
  \<^verbatim>\<open>Range\<close> visits the entries; sync.Map promises no order, and the theorems below
  hold for every association list.
\<close>

type_synonym ref = nat
type_synonym heap = "Header list"

record Env =
  pkgs :: "Package list"
  currentPackage :: string
  currentService :: string
  headers :: "(string \<times> ref) list"
  cache_pkgList :: "Package list"
  cache_pkg :: "string \<rightharpoonup> Package"

definition HasCurrentPackage :: "Env \<Rightarrow> bool" where
  "HasCurrentPackage e = (currentPackage e \<noteq> '''')"

definition HasCurrentService :: "Env \<Rightarrow> bool" where
  "HasCurrentService e = (currentService e \<noteq> '''')"

definition Packages :: "Env \<Rightarrow> Package list" where
  "Packages e = pkgs e"

text \<open>A key that the cache does not hold reads as nil, and the field access panics.\<close>

definition Services :: "Env \<Rightarrow> Service list result" where
  "Services e =
     (if \<not> HasCurrentPackage e then Fail (sentinel ErrPackageUnselected)
      else case cache_pkg e (currentPackage e) of
             None \<Rightarrow> Panic
           | Some p \<Rightarrow> Ok (pkg_Services p))"

definition Messages :: "Env \<Rightarrow> Message list result" where
  "Messages e =
     (if \<not> HasCurrentPackage e then Fail (sentinel ErrPackageUnselected)
      else case cache_pkg e (currentPackage e) of
             None \<Rightarrow> Panic
           | Some p \<Rightarrow> Ok (pkg_Messages p))"

fun Service_loop :: "string \<Rightarrow> Service list \<Rightarrow> Service result" where
  "Service_loop name [] = Fail (Wrapf_not_found (sentinel ErrInvalidServiceName) name)"
| "Service_loop name (svc # rest) =
     (if name = svc_Name svc then Ok svc else Service_loop name rest)"

definition Service :: "string \<Rightarrow> Env \<Rightarrow> Service result" where
  "Service name e =
     (case Services e of
        Fail err \<Rightarrow> Fail err
      | Panic \<Rightarrow> Panic
      | Ok svc \<Rightarrow> Service_loop name svc)"

fun Message_loop :: "string \<Rightarrow> Message list \<Rightarrow> Message result" where
  "Message_loop name [] = Fail (Wrapf_not_found (sentinel ErrInvalidMessageName) name)"
| "Message_loop name (msg # rest) =
     (if name = msg_Name msg then Ok msg else Message_loop name rest)"

definition Message :: "string \<Rightarrow> Env \<Rightarrow> Message result" where
  "Message name e =
     (case Messages e of
        Fail err \<Rightarrow> Fail err
      | Panic \<Rightarrow> Panic
      | Ok msg \<Rightarrow> Message_loop name msg)"

definition RPCs :: "Env \<Rightarrow> RPC list result" where
  "RPCs e =
     (if \<not> HasCurrentService e then Fail (sentinel ErrServiceUnselected)
      else case Service (currentService e) e of
             Fail err \<Rightarrow> Fail err
           | Panic \<Rightarrow> Panic
           | Ok svc \<Rightarrow> Ok (svc_RPCs svc))"

fun RPC_loop :: "string \<Rightarrow> RPC list \<Rightarrow> RPC result" where
  "RPC_loop name [] = Fail (Wrapf_not_found (sentinel ErrInvalidRPCName) name)"
| "RPC_loop name (rpc # rest) =
     (if name = rpc_Name rpc then Ok rpc else RPC_loop name rest)"

definition RPC :: "string \<Rightarrow> Env \<Rightarrow> RPC result" where
  "RPC name e =
     (case RPCs e of
        Fail err \<Rightarrow> Fail err
      | Panic \<Rightarrow> Panic
      | Ok rpcs \<Rightarrow> RPC_loop name rpcs)"

subsection \<open>Selection\<close>

fun UsePackage_loop :: "string \<Rightarrow> Package list \<Rightarrow> Env \<Rightarrow> unit result \<times> Env" where
  "UsePackage_loop name [] e = (Fail (Wrapf_not_found (sentinel ErrUnknownPackage) name), e)"
| "UsePackage_loop name (p # rest) e =
     (if name = pkg_Name p
      then (Ok (), e\<lparr>currentPackage := name, cache_pkg := (cache_pkg e)(name \<mapsto> p)\<rparr>)
      else UsePackage_loop name rest e)"

definition UsePackage :: "string \<Rightarrow> Env \<Rightarrow> unit result \<times> Env" where
  "UsePackage name e = UsePackage_loop name (Packages e) e"

text \<open>
  \<^verbatim>\<open>strings.SplitN(s, ".", 2)\<close>: the string itself when it holds no dot, else what
  stands before the first dot and what stands after it.
\<close>

definition SplitN_dot_2 :: "string \<Rightarrow> string list" where
  "SplitN_dot_2 s =
     (case dropWhile (\<lambda>c. c \<noteq> CHR ''.'') s of
        [] \<Rightarrow> [s]
      | _ # rest \<Rightarrow> [takeWhile (\<lambda>c. c \<noteq> CHR ''.'') s, rest])"

fun UseService_loop :: "string \<Rightarrow> Service list \<Rightarrow> Env \<Rightarrow> unit result \<times> Env" where
  "UseService_loop name [] e = (Fail (Wrapf_not_found (sentinel ErrUnknownService) name), e)"
| "UseService_loop name (svc # rest) e =
     (if name = svc_Name svc then (Ok (), e\<lparr>currentService := name\<rparr>)
      else UseService_loop name rest e)"

text \<open>
  Lines 221 to 231 of UseService: what follows the selection of the package. The format
  \<^verbatim>\<open>"failed to get services"\<close> holds no verb, so \<^verbatim>\<open>Wrapf\<close> adds it as it is.
\<close>

definition UseService_resolve :: "string \<Rightarrow> Env \<Rightarrow> unit result \<times> Env" where
  "UseService_resolve name e =
     (case Services e of
        Fail err \<Rightarrow> (Fail (Wrap err ''failed to get services''), e)
      | Panic \<Rightarrow> (Panic, e)
      | Ok services \<Rightarrow> UseService_loop name services e)"

definition UseService :: "string \<Rightarrow> Env \<Rightarrow> unit result \<times> Env" where
  "UseService name e =
     (if currentPackage e = '''' then
        (let s = SplitN_dot_2 name in
         if length s \<noteq> 2
         then (Fail (Wrap (sentinel ErrPackageUnselected)
                 ''please set package (package_name.service_name or set --package flag)''), e)
         else case UsePackage (s ! 0) e of
                (Fail err, e') \<Rightarrow> (Fail (Wrapf_noargs err name), e')
              | (Panic, e') \<Rightarrow> (Panic, e')
              | (Ok _, e') \<Rightarrow> UseService_resolve name e')
      else UseService_resolve name e)"

definition DSN :: "Env \<Rightarrow> string" where
  "DSN e =
     (if currentPackage e = '''' then ''''
      else if currentService e \<noteq> '''' then currentPackage e @ ''.'' @ currentService e
      else currentPackage e)"

subsection \<open>Headers\<close>

text \<open>
  \<^verbatim>\<open>AddHeader(h)\<close> reads \<^verbatim>\<open>h.Key\<close> and stores the pointer itself under it;
  a nil pointer panics at the read.
\<close>

definition AddHeader :: "ref \<Rightarrow> heap \<Rightarrow> Env \<Rightarrow> unit result \<times> Env" where
  "AddHeader h hp e =
     (if h < length hp
      then (Ok (), e\<lparr>headers := AList.update (Key (hp ! h)) h (headers e)\<rparr>)
      else (Panic, e))"

definition RemoveHeader :: "string \<Rightarrow> Env \<Rightarrow> Env" where
  "RemoveHeader key e = e\<lparr>headers := AList.delete key (headers e)\<rparr>"

text \<open>
  The callback of \<^verbatim>\<open>Range\<close> in Headers: for each entry a new header is allocated with
  the key and value of the stored one, and its pointer appended to the result.
\<close>

fun Headers_range :: "(string \<times> ref) list \<Rightarrow> heap \<Rightarrow> ref list \<Rightarrow> ref list result \<times> heap" where
  "Headers_range [] hp hs = (Ok hs, hp)"
| "Headers_range ((k, v) # rest) hp hs =
     (if v < length hp
      then Headers_range rest
             (hp @ [\<lparr>Key = Key (hp ! v), Val = Val (hp ! v)\<rparr>]) (hs @ [length hp])
      else (Panic, hp))"

text \<open>
  \<^verbatim>\<open>sort.Slice\<close> by the key of the header behind each pointer. Go's sort is not stable;
  \<open>sort_key\<close> is, which differs only in the order of headers of one key.
\<close>

definition Headers :: "heap \<Rightarrow> Env \<Rightarrow> ref list result \<times> heap" where
  "Headers hp e =
     (case Headers_range (headers e) hp [] of
        (Ok hs, hp') \<Rightarrow> (Ok (sort_key (\<lambda>r. Key (hp' ! r)) hs), hp')
      | (Fail err, hp') \<Rightarrow> (Fail err, hp')
      | (Panic, hp') \<Rightarrow> (Panic, hp'))"

subsection \<open>Construction\<close>

fun New_loop :: "Header list \<Rightarrow> heap \<Rightarrow> Env \<Rightarrow> Env result \<times> heap" where
  "New_loop [] hp env = (Ok env, hp)"
| "New_loop (h # rest) hp env =
     (let hp' = hp @ [\<lparr>Key = Key h, Val = Val h\<rparr>] in
      case AddHeader (length hp) hp' env of
        (Ok _, env') \<Rightarrow> New_loop rest hp' env'
      | (Fail err, env') \<Rightarrow> (Fail err, hp')
      | (Panic, env') \<Rightarrow> (Panic, hp'))"

text \<open>
  The literal \<^verbatim>\<open>&Env{pkgs: pkgs, cache: cache{pkg: map[string]*entity.Package{}}}\<close>:
  the fields it does not name are zero.
\<close>

definition Env_literal :: "Package list \<Rightarrow> Env" where
  "Env_literal ps =
     \<lparr>pkgs = ps, currentPackage = '''', currentService = '''', headers = [],
      cache_pkgList = [], cache_pkg = Map.empty\<rparr>"

definition New :: "Package list \<Rightarrow> Header list \<Rightarrow> heap \<Rightarrow> Env result \<times> heap" where
  "New ps defaultHeaders hp = New_loop defaultHeaders hp (Env_literal ps)"

text \<open>\<^verbatim>\<open>env.pkgs[0]\<close> panics on an empty slice, and so does an error of UsePackage.\<close>

definition NewFromServices ::
  "Service list \<Rightarrow> Message list \<Rightarrow> Header list \<Rightarrow> heap \<Rightarrow> Env result \<times> heap" where
  "NewFromServices svcs msgs defaultHeaders hp =
     (case New [\<lparr>pkg_Name = ''default'', pkg_Services = svcs, pkg_Messages = msgs\<rparr>]
             defaultHeaders hp of
        (Ok env, hp') \<Rightarrow>
          (case pkgs env of
             [] \<Rightarrow> (Panic, hp')
           | p # _ \<Rightarrow>
               (case UsePackage (pkg_Name p) env of
                  (Ok _, env') \<Rightarrow> (Ok env', hp')
                | (Fail err, env') \<Rightarrow> (Panic, hp')
                | (Panic, env') \<Rightarrow> (Panic, hp')))
      | (Fail err, hp') \<Rightarrow> (Fail err, hp')
      | (Panic, hp') \<Rightarrow> (Panic, hp'))"

subsection \<open>Reachable environments\<close>

text \<open>
  The environments a caller can bring about: it builds one with New or NewFromServices
  and then calls the methods that change it. The queries (Packages, Services, Messages,
  RPCs, Service, Message, RPC, Headers, DSN) leave the environment as it is.
\<close>

inductive reachable :: "Env \<Rightarrow> bool" where
  reach_New: "New ps defaultHeaders hp = (Ok e, hp') \<Longrightarrow> reachable e"
| reach_NewFromServices:
    "NewFromServices svcs msgs defaultHeaders hp = (Ok e, hp') \<Longrightarrow> reachable e"
| reach_UsePackage: "reachable e \<Longrightarrow> reachable (snd (UsePackage name e))"
| reach_UseService: "reachable e \<Longrightarrow> reachable (snd (UseService name e))"
| reach_AddHeader: "reachable e \<Longrightarrow> reachable (snd (AddHeader h hp e))"
| reach_RemoveHeader: "reachable e \<Longrightarrow> reachable (RemoveHeader key e)"

subsection \<open>Example catalogs\<close>

definition SayHello :: RPC where
  "SayHello = \<lparr>rpc_Name = ''SayHello'', rpc_body = 0\<rparr>"

definition Greeter :: Service where
  "Greeter = \<lparr>svc_Name = ''Greeter'', svc_RPCs = [SayHello], svc_body = 0\<rparr>"

definition greet :: Package where
  "greet = \<lparr>pkg_Name = ''greet'', pkg_Services = [Greeter], pkg_Messages = []\<rparr>"

text \<open>A package \<open>p\<close> whose services are named \<open>p.s\<close> and \<open>s\<close>.\<close>

definition pkg_p :: Package where
  "pkg_p = \<lparr>pkg_Name = ''p'',
            pkg_Services = [\<lparr>svc_Name = ''p.s'', svc_RPCs = [], svc_body = 0\<rparr>,
                            \<lparr>svc_Name = ''s'', svc_RPCs = [], svc_body = 1\<rparr>],
            pkg_Messages = []\<rparr>"

text \<open>A package without a name, as a protocol file without a package clause gives.\<close>

definition pkg_anon :: Package where
  "pkg_anon = \<lparr>pkg_Name = '''',
               pkg_Services = [\<lparr>svc_Name = ''.x'', svc_RPCs = [], svc_body = 0\<rparr>],
               pkg_Messages = []\<rparr>"

definition catalog :: "Package list" where
  "catalog = [greet, pkg_p, pkg_anon]"

text \<open>The environment over \<open>catalog\<close> after UsePackage("greet"), then after
  UseService("Greeter"); and the fresh environment after UseService("p.s").\<close>

definition env_greet :: Env where
  "env_greet = snd (UsePackage ''greet'' (Env_literal catalog))"

definition env_Greeter :: Env where
  "env_Greeter = snd (UseService ''Greeter'' env_greet)"

definition env_p_s :: Env where
  "env_p_s = snd (UseService ''p.s'' (Env_literal catalog))"

text \<open>A package with two services, two messages and two RPCs of one name each, and the
  environment after UsePackage("dup") and UseService("S").\<close>

definition pkg_dup :: Package where
  "pkg_dup = \<lparr>pkg_Name = ''dup'',
      pkg_Services = [\<lparr>svc_Name = ''S'',
                        svc_RPCs = [\<lparr>rpc_Name = ''R'', rpc_body = 1\<rparr>,
                                    \<lparr>rpc_Name = ''R'', rpc_body = 2\<rparr>],
                        svc_body = 1\<rparr>,
                      \<lparr>svc_Name = ''S'', svc_RPCs = [], svc_body = 2\<rparr>],
      pkg_Messages = [\<lparr>msg_Name = ''M'', msg_body = 1\<rparr>, \<lparr>msg_Name = ''M'', msg_body = 2\<rparr>]\<rparr>"

definition env_dup :: Env where
  "env_dup = snd (UseService ''S'' (snd (UsePackage ''dup'' (Env_literal [pkg_dup]))))"

text \<open>The environment after UsePackage("greet"), UseService("Greeter"), UsePackage("").\<close>

definition env_anon :: Env where
  "env_anon = snd (UsePackage '''' env_Greeter)"

text \<open>A heap of three headers, and the environment after AddHeader of the first two.\<close>

definition hdr_heap :: heap where
  "hdr_heap = [\<lparr>Key = ''b'', Val = ''1''\<rparr>, \<lparr>Key = ''a'', Val = ''2''\<rparr>, \<lparr>Key = ''b'', Val = ''3''\<rparr>]"

definition env_hdrs :: Env where
  "env_hdrs = snd (AddHeader 1 hdr_heap (snd (AddHeader 0 hdr_heap (Env_literal []))))"

section \<open>Selecting a package\<close>

lemma UsePackage_loop_currentService:
  "currentService (snd (UsePackage_loop name ps e)) = currentService e"
  by (induction ps) simp_all

lemma UsePackage_loop_unknown:
  "name \<notin> pkg_Name ` set ps \<Longrightarrow>
   UsePackage_loop name ps e = (Fail (Wrapf_not_found (sentinel ErrUnknownPackage) name), e)"
  by (induction ps) auto

lemma Error_text_not_found:
  "Error_text sprintf (Wrapf_not_found (sentinel k) name) =
     name @ '' not found: '' @ kind_text k"
  by (simp add: Error_text_def Wrapf_not_found_def Wrap_def sentinel_def)

text \<open>
  C3. For a name that no package of the catalog bears, UsePackage returns an error whose
  cause is ErrUnknownPackage and whose text starts with the name that was searched, and
  the environment it leaves is the environment it was given: the current package, the
  current service and the cache are what they were.
\<close>

theorem UsePackage_unknown:
  assumes "name \<notin> pkg_Name ` set (pkgs e)"
  shows "\<exists>err. UsePackage name e = (Fail err, e) \<and> Cause err = ErrUnknownPackage
           \<and> Error_text sprintf err = name @ '' not found: unknown package''
           \<and> sublist name (Error_text sprintf err)"
proof -
  let ?err = "Wrapf_not_found (sentinel ErrUnknownPackage) name"
  have run: "UsePackage name e = (Fail ?err, e)"
    using assms by (simp add: UsePackage_def Packages_def UsePackage_loop_unknown)
  have cause: "Cause ?err = ErrUnknownPackage"
    by (simp add: Wrapf_not_found_def Wrap_def sentinel_def)
  have msg: "Error_text sprintf ?err = name @ '' not found: unknown package''"
    by (simp add: Error_text_not_found)
  have "sublist name (name @ '' not found: unknown package'')"
    by (rule prefix_imp_sublist) simp
  with run cause msg show ?thesis by metis
qed

theorem UsePackage_unknown_witness:
  "''nope'' \<notin> pkg_Name ` set (pkgs (Env_literal catalog)) \<and>
   (\<exists>err. UsePackage ''nope'' (Env_literal catalog) = (Fail err, Env_literal catalog)
      \<and> Cause err = ErrUnknownPackage
      \<and> Error_text id err = ''nope not found: unknown package''
      \<and> sublist ''nope'' (Error_text id err))"
proof -
  have h: "''nope'' \<notin> pkg_Name ` set (pkgs (Env_literal catalog))"
    by (simp add: Env_literal_def catalog_def greet_def pkg_p_def pkg_anon_def)
  show ?thesis
    using h UsePackage_unknown [OF h, of id] by simp
qed

lemma UsePackage_loop_Ok:
  "UsePackage_loop name ps e = (Ok u, e') \<Longrightarrow>
   \<exists>p\<in>set ps. pkg_Name p = name \<and>
     e' = e\<lparr>currentPackage := name, cache_pkg := (cache_pkg e)(name \<mapsto> p)\<rparr>"
  by (induction ps) (auto split: if_splits)

text \<open>
  C4. When UsePackage succeeds, the current package is the name that was asked for, the
  cache holds under that name a package of the catalog that bears it, with its other
  entries as before, and the current service is what it was before the call, whatever
  the package that was selected; the catalog and the headers are untouched as well.
\<close>

theorem UsePackage_keeps_currentService:
  assumes "UsePackage name e = (Ok u, e')"
  shows "currentPackage e' = name
       \<and> (\<exists>p\<in>set (pkgs e). pkg_Name p = name \<and> cache_pkg e' = (cache_pkg e)(name \<mapsto> p))
       \<and> currentService e' = currentService e
       \<and> pkgs e' = pkgs e \<and> headers e' = headers e"
proof -
  from assms obtain p where p: "p \<in> set (pkgs e)" "pkg_Name p = name"
    and e': "e' = e\<lparr>currentPackage := name, cache_pkg := (cache_pkg e)(name \<mapsto> p)\<rparr>"
    unfolding UsePackage_def Packages_def by (blast dest: UsePackage_loop_Ok)
  from e' have "cache_pkg e' = (cache_pkg e)(name \<mapsto> p)" by simp
  with p have "\<exists>p\<in>set (pkgs e). pkg_Name p = name \<and> cache_pkg e' = (cache_pkg e)(name \<mapsto> p)"
    by blast
  with e' show ?thesis by simp
qed

lemmas example_defs = Env_literal_def catalog_def greet_def pkg_p_def pkg_anon_def Greeter_def SayHello_def

lemma env_Greeter_eq: "env_Greeter = (Env_literal catalog)\<lparr>currentPackage := ''greet'', currentService := ''Greeter'', cache_pkg := [''greet'' \<mapsto> greet]\<rparr>"
  by (simp add: env_Greeter_def env_greet_def UseService_def UsePackage_def Packages_def UseService_resolve_def Services_def HasCurrentPackage_def example_defs)

theorem UsePackage_keeps_currentService_witness:
  "UsePackage ''p'' env_Greeter = (Ok (), snd (UsePackage ''p'' env_Greeter))
   \<and> currentService env_Greeter = ''Greeter''
   \<and> ''Greeter'' \<notin> svc_Name ` set (pkg_Services pkg_p)
   \<and> currentPackage (snd (UsePackage ''p'' env_Greeter)) = ''p''
   \<and> currentService (snd (UsePackage ''p'' env_Greeter)) = ''Greeter''"
proof -
  have h: "UsePackage ''p'' env_Greeter = (Ok (), snd (UsePackage ''p'' env_Greeter))"
    by (simp add: env_Greeter_eq UsePackage_def Packages_def example_defs)
  have s: "currentService env_Greeter = ''Greeter''"
    by (simp add: env_Greeter_eq)
  have n: "''Greeter'' \<notin> svc_Name ` set (pkg_Services pkg_p)"
    by (simp add: pkg_p_def)
  from UsePackage_keeps_currentService [OF h] h s n show ?thesis by simp
qed

lemma SplitN_dot_2_eq:
  "SplitN_dot_2 s =
     (if CHR ''.'' \<in> set s
      then [takeWhile (\<lambda>c. c \<noteq> CHR ''.'') s, tl (dropWhile (\<lambda>c. c \<noteq> CHR ''.'') s)]
      else [s])"
proof (cases "CHR ''.'' \<in> set s")
  case False
  then have d: "dropWhile (\<lambda>c. c \<noteq> CHR ''.'') s = []" by auto
  show ?thesis unfolding SplitN_dot_2_def d using False by simp
next
  case True
  then have "dropWhile (\<lambda>c. c \<noteq> CHR ''.'') s \<noteq> []" by auto
  then obtain c rest where d: "dropWhile (\<lambda>c. c \<noteq> CHR ''.'') s = c # rest"
    by (cases "dropWhile (\<lambda>c. c \<noteq> CHR ''.'') s") auto
  show ?thesis unfolding SplitN_dot_2_def d using True by simp
qed

lemma SplitN_dot_2_prefix:
  assumes "CHR ''.'' \<notin> set pre"
  shows "SplitN_dot_2 (pre @ ''.'' @ rest) = [pre, rest]"
proof -
  from assms have p: "\<And>x. x \<in> set pre \<Longrightarrow> x \<noteq> CHR ''.''" by auto
  have d: "dropWhile (\<lambda>c. c \<noteq> CHR ''.'') (pre @ ''.'' @ rest) = ''.'' @ rest"
    using p by (simp add: dropWhile_append2)
  have t: "takeWhile (\<lambda>c. c \<noteq> CHR ''.'') (pre @ ''.'' @ rest) = pre"
    using p by (simp add: takeWhile_append2)
  show ?thesis unfolding SplitN_dot_2_def d t by simp
qed

lemma UseService_loop_Ok:
  "UseService_loop name svcs e = (Ok u, e') \<Longrightarrow>
   e' = e\<lparr>currentService := name\<rparr> \<and> name \<in> svc_Name ` set svcs"
  by (induction svcs) (auto split: if_splits)

lemma UseService_loop_found:
  "name \<in> svc_Name ` set svcs \<Longrightarrow> UseService_loop name svcs e = (Ok (), e\<lparr>currentService := name\<rparr>)"
  by (induction svcs) auto

lemma UseService_loop_unknown:
  "name \<notin> svc_Name ` set svcs \<Longrightarrow>
   UseService_loop name svcs e = (Fail (Wrapf_not_found (sentinel ErrUnknownService) name), e)"
  by (induction svcs) auto

lemma UseService_resolve_Ok:
  "UseService_resolve name e = (Ok u, e') \<Longrightarrow>
   e' = e\<lparr>currentService := name\<rparr> \<and> currentPackage e \<noteq> ''''"
  by (auto simp: UseService_resolve_def Services_def HasCurrentPackage_def
      split: result.splits if_splits option.splits dest: UseService_loop_Ok)

lemma UsePackage_Ok:
  "UsePackage name e = (Ok u, e') \<Longrightarrow>
   \<exists>p\<in>set (pkgs e). pkg_Name p = name \<and>
     e' = e\<lparr>currentPackage := name, cache_pkg := (cache_pkg e)(name \<mapsto> p)\<rparr>"
  unfolding UsePackage_def Packages_def by (rule UsePackage_loop_Ok)

lemma UseService_Ok_selected:
  "currentPackage e \<noteq> '''' \<Longrightarrow> UseService name e = (Ok u, e') \<Longrightarrow>
   e' = e\<lparr>currentService := name\<rparr>"
  by (auto simp: UseService_def dest: UseService_resolve_Ok)

lemma UseService_Ok_unselected:
  assumes "currentPackage e = ''''" "UseService name e = (Ok u, e')"
  shows "CHR ''.'' \<in> set name \<and> currentPackage e' = takeWhile (\<lambda>c. c \<noteq> CHR ''.'') name
       \<and> currentPackage e' \<noteq> '''' \<and> currentService e' = name"
proof -
  let ?pre = "takeWhile (\<lambda>c. c \<noteq> CHR ''.'') name"
  have dot: "CHR ''.'' \<in> set name"
    using assms by (auto simp: UseService_def SplitN_dot_2_eq Let_def split: if_splits)
  then have s: "SplitN_dot_2 name = [?pre, tl (dropWhile (\<lambda>c. c \<noteq> CHR ''.'') name)]"
    by (simp add: SplitN_dot_2_eq)
  from assms s obtain u1 e1 where up: "UsePackage ?pre e = (Ok u1, e1)"
    and res: "UseService_resolve name e1 = (Ok u, e')"
    by (auto simp: UseService_def Let_def split: prod.splits result.splits)
  from up have "currentPackage e1 = ?pre" by (auto dest: UsePackage_Ok)
  with res dot show ?thesis by (auto dest: UseService_resolve_Ok)
qed

text \<open>
  C1, as the code has it. When UsePackage(p) succeeds in an environment with no service
  selected, DSN returns \<open>p\<close>. When UseService(s), for a name \<open>s\<close> that is not empty,
  succeeds in an environment whose current package is \<open>p\<close>, DSN returns \<open>p.s\<close>.
  When UseService(n) succeeds in an environment with no package selected, the package
  that is selected is what stands before the first dot of \<open>n\<close> and the service is the
  whole of \<open>n\<close>, so DSN returns that prefix, a dot and \<open>n\<close>: for \<open>p.s\<close> it is
  \<open>p.p.s\<close>.
\<close>

theorem DSN_after_selection:
  "(UsePackage p e = (Ok u, e') \<and> currentService e = '''' \<longrightarrow> DSN e' = p)
 \<and> (currentPackage e = p \<and> p \<noteq> '''' \<and> s \<noteq> '''' \<and> UseService s e = (Ok u, e')
      \<longrightarrow> DSN e' = p @ ''.'' @ s)
 \<and> (currentPackage e = '''' \<and> UseService n e = (Ok u, e')
      \<longrightarrow> DSN e' = takeWhile (\<lambda>c. c \<noteq> CHR ''.'') n @ ''.'' @ n)"
proof (intro conjI impI)
  assume "UsePackage p e = (Ok u, e') \<and> currentService e = ''''"
  then show "DSN e' = p" by (auto simp: DSN_def dest!: UsePackage_Ok)
next
  assume a: "currentPackage e = p \<and> p \<noteq> '''' \<and> s \<noteq> '''' \<and> UseService s e = (Ok u, e')"
  then have "e' = e\<lparr>currentService := s\<rparr>"
    by (auto dest: UseService_Ok_selected)
  with a show "DSN e' = p @ ''.'' @ s"
    by (simp add: DSN_def)
next
  assume a: "currentPackage e = '''' \<and> UseService n e = (Ok u, e')"
  then have c: "currentPackage e = ''''" and r: "UseService n e = (Ok u, e')"
    by simp_all
  have "CHR ''.'' \<in> set n \<and> currentPackage e' = takeWhile (\<lambda>c. c \<noteq> CHR ''.'') n
       \<and> currentPackage e' \<noteq> '''' \<and> currentService e' = n"
    by (rule UseService_Ok_unselected [OF c r])
  then show "DSN e' = takeWhile (\<lambda>c. c \<noteq> CHR ''.'') n @ ''.'' @ n"
    by (auto simp: DSN_def)
qed

lemmas op_defs = UseService_def UsePackage_def Packages_def UseService_resolve_def Services_def HasCurrentPackage_def SplitN_dot_2_def DSN_def

text \<open>
  Over the example catalog: UseService("p.s") on the fresh environment selects the package
  \<open>p\<close> and the service \<open>p.s\<close>, and DSN returns \<open>p.p.s\<close>, not \<open>p.s\<close>.
\<close>

theorem DSN_dotted_counterexample:
  "currentPackage (Env_literal catalog) = ''''
   \<and> pkg_p \<in> set (pkgs (Env_literal catalog)) \<and> pkg_Name pkg_p = ''p''
   \<and> fst (UseService ''p.s'' (Env_literal catalog)) = Ok ()
   \<and> DSN (snd (UseService ''p.s'' (Env_literal catalog))) = ''p.p.s''
   \<and> DSN (snd (UseService ''p.s'' (Env_literal catalog))) \<noteq> ''p.s''"
  by (simp add: op_defs example_defs)

lemma env_greet_eq:
  "env_greet = (Env_literal catalog)\<lparr>currentPackage := ''greet'', cache_pkg := [''greet'' \<mapsto> greet]\<rparr>"
  by (simp add: env_greet_def UsePackage_def Packages_def example_defs)

theorem DSN_after_selection_witness:
  "(UsePackage ''greet'' (Env_literal catalog) = (Ok (), env_greet)
      \<and> currentService (Env_literal catalog) = '''' \<and> DSN env_greet = ''greet'')
   \<and> (currentPackage env_greet = ''greet'' \<and> ''greet'' \<noteq> '''' \<and> ''Greeter'' \<noteq> ''''
      \<and> UseService ''Greeter'' env_greet = (Ok (), env_Greeter)
      \<and> DSN env_Greeter = ''greet.Greeter'')
   \<and> (currentPackage (Env_literal catalog) = ''''
      \<and> UseService ''p.s'' (Env_literal catalog) = (Ok (), env_p_s)
      \<and> DSN env_p_s = ''p.p.s'')"
proof -
  have h1: "UsePackage ''greet'' (Env_literal catalog) = (Ok (), env_greet)
      \<and> currentService (Env_literal catalog) = ''''"
    by (simp add: env_greet_def UsePackage_def Packages_def example_defs)
  have h2: "currentPackage env_greet = ''greet'' \<and> ''greet'' \<noteq> '''' \<and> ''Greeter'' \<noteq> ''''
      \<and> UseService ''Greeter'' env_greet = (Ok (), env_Greeter)"
    by (simp add: env_Greeter_def env_greet_eq op_defs example_defs)
  have h3: "currentPackage (Env_literal catalog) = ''''
      \<and> UseService ''p.s'' (Env_literal catalog) = (Ok (), env_p_s)"
    by (simp add: env_p_s_def op_defs example_defs)
  have d1: "DSN env_greet = ''greet''"
    by (rule DSN_after_selection [where e = "Env_literal catalog" and u = "()"
          and e' = env_greet and p = "''greet''", THEN conjunct1, rule_format]) (rule h1)
  have "DSN env_Greeter = ''greet'' @ ''.'' @ ''Greeter''"
    by (rule DSN_after_selection [where e = env_greet and u = "()" and e' = env_Greeter
          and p = "''greet''" and s = "''Greeter''",
          THEN conjunct2, THEN conjunct1, rule_format]) (rule h2)
  then have d2: "DSN env_Greeter = ''greet.Greeter''" by simp
  have "DSN env_p_s = takeWhile (\<lambda>c. c \<noteq> CHR ''.'') ''p.s'' @ ''.'' @ ''p.s''"
    by (rule DSN_after_selection [where e = "Env_literal catalog" and u = "()"
          and e' = env_p_s and n = "''p.s''",
          THEN conjunct2, THEN conjunct2, rule_format]) (rule h3)
  then have d3: "DSN env_p_s = ''p.p.s''" by simp
  from h1 h2 h3 d1 d2 d3 show ?thesis by blast
qed

section \<open>Selecting a service before any package\<close>

lemma UsePackage_cases:
  "UsePackage name e = (Fail (Wrapf_not_found (sentinel ErrUnknownPackage) name), e)
     \<and> name \<notin> pkg_Name ` set (pkgs e)
   \<or> (\<exists>p\<in>set (pkgs e). pkg_Name p = name \<and>
        UsePackage name e =
          (Ok (), e\<lparr>currentPackage := name, cache_pkg := (cache_pkg e)(name \<mapsto> p)\<rparr>))"
proof (cases "name \<in> pkg_Name ` set (pkgs e)")
  case False
  then show ?thesis
    by (simp add: UsePackage_def Packages_def UsePackage_loop_unknown)
next
  case True
  have "name \<in> pkg_Name ` set ps \<Longrightarrow>
        \<exists>p\<in>set ps. pkg_Name p = name \<and> UsePackage_loop name ps e =
          (Ok (), e\<lparr>currentPackage := name, cache_pkg := (cache_pkg e)(name \<mapsto> p)\<rparr>)" for ps
    by (induction ps) auto
  with True show ?thesis
    by (simp add: UsePackage_def Packages_def)
qed

lemma Cause_Wrap [simp]: "Cause (Wrap err msg) = Cause err"
  by (simp add: Wrap_def)

lemma Cause_Wrapf_not_found [simp]: "Cause (Wrapf_not_found err name) = Cause err"
  by (simp add: Wrapf_not_found_def)

lemma Cause_Wrapf_noargs [simp]: "Cause (Wrapf_noargs err f) = Cause err"
  by (simp add: Wrapf_noargs_def)

lemma Cause_sentinel [simp]: "Cause (sentinel k) = k"
  by (simp add: sentinel_def)

lemma UseService_no_dot:
  assumes "currentPackage e = ''''" "CHR ''.'' \<notin> set name"
  shows "\<exists>err. UseService name e = (Fail err, e) \<and> Cause err = ErrPackageUnselected"
  using assms by (simp add: UseService_def SplitN_dot_2_eq)

lemma UseService_dotted:
  assumes "currentPackage e = ''''" "name = pre @ ''.'' @ rest" "CHR ''.'' \<notin> set pre"
  shows "UseService name e =
     (case UsePackage pre e of
        (Fail err, e') \<Rightarrow> (Fail (Wrapf_noargs err name), e')
      | (Panic, e') \<Rightarrow> (Panic, e')
      | (Ok _, e') \<Rightarrow> UseService_resolve name e')"
proof -
  have "SplitN_dot_2 name = [pre, rest]"
    unfolding assms(2) using assms(3) by (rule SplitN_dot_2_prefix)
  with assms(1) show ?thesis
    by (simp add: UseService_def)
qed

lemma UseService_resolve_cached:
  assumes "currentPackage e \<noteq> ''''" "cache_pkg e (currentPackage e) = Some p"
  shows "UseService_resolve name e = UseService_loop name (pkg_Services p) e"
  using assms by (simp add: UseService_resolve_def Services_def HasCurrentPackage_def)

text \<open>
  C2, as the code has it. In an environment with no package selected, UseService(name)
  on a name without a dot returns an error of cause ErrPackageUnselected and leaves the
  environment as it was. On a name \<open>pre.rest\<close>, with no dot in \<open>pre\<close>, it calls
  UsePackage(pre): when that fails, UseService fails with the same cause and the
  environment is unchanged; when that succeeds and \<open>pre\<close> is not empty, the services of
  the package now cached under \<open>pre\<close> are searched for the whole, un-split name:
  if one bears it, the current service becomes the whole name, and if none does (also
  when one is named \<open>rest\<close>), the error has cause ErrUnknownService and the package
  stays selected.
\<close>

theorem UseService_unselected:
  assumes "currentPackage e = ''''"
  shows "(CHR ''.'' \<notin> set name \<longrightarrow>
           (\<exists>err. UseService name e = (Fail err, e) \<and> Cause err = ErrPackageUnselected))
       \<and> (\<forall>pre rest. name = pre @ ''.'' @ rest \<and> CHR ''.'' \<notin> set pre \<longrightarrow>
            (\<forall>err e1. UsePackage pre e = (Fail err, e1) \<longrightarrow>
               (\<exists>err'. UseService name e = (Fail err', e) \<and> Cause err' = Cause err))
          \<and> (\<forall>u e1. UsePackage pre e = (Ok u, e1) \<and> pre \<noteq> '''' \<longrightarrow>
               (\<exists>p. currentPackage e1 = pre \<and> cache_pkg e1 pre = Some p
                  \<and> Services e1 = Ok (pkg_Services p)
                  \<and> (name \<in> svc_Name ` set (pkg_Services p) \<longrightarrow>
                       UseService name e = (Ok (), e1\<lparr>currentService := name\<rparr>))
                  \<and> (name \<notin> svc_Name ` set (pkg_Services p) \<longrightarrow>
                       (\<exists>err. UseService name e = (Fail err, e1)
                          \<and> Cause err = ErrUnknownService)))))"
proof (intro conjI impI allI)
  assume "CHR ''.'' \<notin> set name"
  with assms show "\<exists>err. UseService name e = (Fail err, e) \<and> Cause err = ErrPackageUnselected"
    by (rule UseService_no_dot)
next
  fix pre rest err e1
  assume n: "name = pre @ ''.'' @ rest \<and> CHR ''.'' \<notin> set pre"
    and f: "UsePackage pre e = (Fail err, e1)"
  from n have n1: "name = pre @ ''.'' @ rest" and n2: "CHR ''.'' \<notin> set pre"
    by blast+
  from f have e1: "e1 = e" using UsePackage_cases [of pre e] by auto
  show "\<exists>err'. UseService name e = (Fail err', e) \<and> Cause err' = Cause err"
    unfolding UseService_dotted [OF assms n1 n2] f e1 by simp
next
  fix pre rest u e1
  assume n: "name = pre @ ''.'' @ rest \<and> CHR ''.'' \<notin> set pre"
    and ok: "UsePackage pre e = (Ok u, e1) \<and> pre \<noteq> ''''"
  from n have n1: "name = pre @ ''.'' @ rest" and n2: "CHR ''.'' \<notin> set pre"
    by blast+
  from ok have ok1: "UsePackage pre e = (Ok u, e1)" and ok2: "pre \<noteq> ''''"
    by blast+
  from ok1 obtain p where e1: "e1 = e\<lparr>currentPackage := pre, cache_pkg := (cache_pkg e)(pre \<mapsto> p)\<rparr>"
    by (blast dest: UsePackage_Ok)
  have run: "UseService name e = UseService_resolve name e1"
    unfolding UseService_dotted [OF assms n1 n2] ok1 by simp
  from e1 ok2 have res: "UseService_resolve name e1 = UseService_loop name (pkg_Services p) e1"
    by (intro UseService_resolve_cached) simp_all
  have "currentPackage e1 = pre \<and> cache_pkg e1 pre = Some p
      \<and> Services e1 = Ok (pkg_Services p)
      \<and> (name \<in> svc_Name ` set (pkg_Services p) \<longrightarrow>
            UseService name e = (Ok (), e1\<lparr>currentService := name\<rparr>))
      \<and> (name \<notin> svc_Name ` set (pkg_Services p) \<longrightarrow>
            (\<exists>err. UseService name e = (Fail err, e1) \<and> Cause err = ErrUnknownService))"
    unfolding run res using e1 ok2
    by (simp add: UseService_loop_found UseService_loop_unknown Services_def HasCurrentPackage_def)
  then show "\<exists>p. currentPackage e1 = pre \<and> cache_pkg e1 pre = Some p
      \<and> Services e1 = Ok (pkg_Services p)
      \<and> (name \<in> svc_Name ` set (pkg_Services p) \<longrightarrow>
            UseService name e = (Ok (), e1\<lparr>currentService := name\<rparr>))
      \<and> (name \<notin> svc_Name ` set (pkg_Services p) \<longrightarrow>
            (\<exists>err. UseService name e = (Fail err, e1) \<and> Cause err = ErrUnknownService))"
    by blast
qed

text \<open>
  Over the example catalog, whose third package has the empty name and owns a service
  named \<open>.x\<close>: UseService(".x") on the fresh environment selects that package, and
  then fails with ErrPackageUnselected, since the selected name is empty; the service is
  not selected although its name is matched exactly.
\<close>

theorem UseService_anonymous_counterexample:
  "currentPackage (Env_literal catalog) = ''''
   \<and> ''.x'' = '''' @ ''.'' @ ''x''
   \<and> fst (UsePackage '''' (Env_literal catalog)) = Ok ()
   \<and> cache_pkg (snd (UsePackage '''' (Env_literal catalog))) '''' = Some pkg_anon
   \<and> ''.x'' \<in> svc_Name ` set (pkg_Services pkg_anon)
   \<and> fst (UseService ''.x'' (Env_literal catalog))
       = Fail (Error ErrPackageUnselected [Text ''failed to get services''])
   \<and> currentService (snd (UseService ''.x'' (Env_literal catalog))) = ''''"
  by (simp add: op_defs example_defs Wrap_def sentinel_def)


theorem UseService_unselected_witness:
  "currentPackage (Env_literal catalog) = ''''
   \<and> (\<exists>err. UseService ''Greeter'' (Env_literal catalog) = (Fail err, Env_literal catalog)
         \<and> Cause err = ErrPackageUnselected)
   \<and> (\<exists>err. UseService ''q.s'' (Env_literal catalog) = (Fail err, Env_literal catalog)
         \<and> Cause err = ErrUnknownPackage)
   \<and> UseService ''p.s'' (Env_literal catalog) = (Ok (), env_p_s)
   \<and> currentPackage env_p_s = ''p'' \<and> currentService env_p_s = ''p.s''
   \<and> ''Greeter'' \<in> svc_Name ` set (pkg_Services greet)
   \<and> (\<exists>err. UseService ''greet.Greeter'' (Env_literal catalog) = (Fail err, env_greet)
         \<and> Cause err = ErrUnknownService)"
proof -
  let ?E = "Env_literal catalog"
  have h: "currentPackage ?E = ''''"
    by (simp add: Env_literal_def)
  note T = UseService_unselected [OF h]
  have a: "\<exists>err. UseService ''Greeter'' ?E = (Fail err, ?E) \<and> Cause err = ErrPackageUnselected"
    by (rule T [THEN conjunct1, rule_format]) simp
  have q: "UsePackage ''q'' ?E = (Fail (Wrapf_not_found (sentinel ErrUnknownPackage) ''q''), ?E)"
    by (simp add: UsePackage_def Packages_def example_defs)
  have "\<exists>err. UseService ''q.s'' ?E = (Fail err, ?E)
          \<and> Cause err = Cause (Wrapf_not_found (sentinel ErrUnknownPackage) ''q'')"
  proof (rule T [of "''q.s''", THEN conjunct2, THEN spec, THEN spec, THEN mp,
        THEN conjunct1, THEN spec, THEN spec, THEN mp])
    show "UsePackage ''q'' ?E = (Fail (Wrapf_not_found (sentinel ErrUnknownPackage) ''q''), ?E)"
      by (rule q)
    show "''q.s'' = ''q'' @ ''.'' @ ''s'' \<and> CHR ''.'' \<notin> set ''q''"
      by simp
  qed
  then have b: "\<exists>err. UseService ''q.s'' ?E = (Fail err, ?E) \<and> Cause err = ErrUnknownPackage"
    by (simp add: Wrapf_not_found_def Wrap_def sentinel_def)
  let ?Ep = "?E\<lparr>currentPackage := ''p'', cache_pkg := [''p'' \<mapsto> pkg_p]\<rparr>"
  have p: "UsePackage ''p'' ?E = (Ok (), ?Ep)"
    by (simp add: UsePackage_def Packages_def example_defs)
  have "\<exists>pk. currentPackage ?Ep = ''p'' \<and> cache_pkg ?Ep ''p'' = Some pk
      \<and> Services ?Ep = Ok (pkg_Services pk)
      \<and> (''p.s'' \<in> svc_Name ` set (pkg_Services pk) \<longrightarrow>
            UseService ''p.s'' ?E = (Ok (), ?Ep\<lparr>currentService := ''p.s''\<rparr>))
      \<and> (''p.s'' \<notin> svc_Name ` set (pkg_Services pk) \<longrightarrow>
            (\<exists>err. UseService ''p.s'' ?E = (Fail err, ?Ep) \<and> Cause err = ErrUnknownService))"
  proof (rule T [of "''p.s''", THEN conjunct2, THEN spec, THEN spec, THEN mp,
        THEN conjunct2, THEN spec, THEN spec, THEN mp])
    show "UsePackage ''p'' ?E = (Ok (), ?Ep) \<and> ''p'' \<noteq> ''''"
      using p by simp
    show "''p.s'' = ''p'' @ ''.'' @ ''s'' \<and> CHR ''.'' \<notin> set ''p''"
      by simp
  qed
  then have r: "UseService ''p.s'' ?E = (Ok (), ?Ep\<lparr>currentService := ''p.s''\<rparr>)"
    by (auto simp: pkg_p_def)
  have eq: "env_p_s = ?Ep\<lparr>currentService := ''p.s''\<rparr>"
    by (simp add: env_p_s_def op_defs example_defs)
  have c1: "UseService ''p.s'' ?E = (Ok (), env_p_s)"
    unfolding eq by (rule r)
  have c2: "currentPackage env_p_s = ''p'' \<and> currentService env_p_s = ''p.s''"
    unfolding eq by simp
  note c = conjI [OF c1 c2]
  have g: "UsePackage ''greet'' ?E = (Ok (), env_greet)"
    by (simp add: env_greet_def UsePackage_def Packages_def example_defs)
  have "\<exists>pk. currentPackage env_greet = ''greet'' \<and> cache_pkg env_greet ''greet'' = Some pk
      \<and> Services env_greet = Ok (pkg_Services pk)
      \<and> (''greet.Greeter'' \<in> svc_Name ` set (pkg_Services pk) \<longrightarrow>
            UseService ''greet.Greeter'' ?E
              = (Ok (), env_greet\<lparr>currentService := ''greet.Greeter''\<rparr>))
      \<and> (''greet.Greeter'' \<notin> svc_Name ` set (pkg_Services pk) \<longrightarrow>
            (\<exists>err. UseService ''greet.Greeter'' ?E = (Fail err, env_greet)
               \<and> Cause err = ErrUnknownService))"
  proof (rule T [of "''greet.Greeter''", THEN conjunct2, THEN spec, THEN spec, THEN mp,
        THEN conjunct2, THEN spec, THEN spec, THEN mp])
    show "UsePackage ''greet'' ?E = (Ok (), env_greet) \<and> ''greet'' \<noteq> ''''"
      using g by simp
    show "''greet.Greeter'' = ''greet'' @ ''.'' @ ''Greeter'' \<and> CHR ''.'' \<notin> set ''greet''"
      by simp
  qed
  then have d: "\<exists>err. UseService ''greet.Greeter'' ?E = (Fail err, env_greet)
               \<and> Cause err = ErrUnknownService"
    by (auto simp: env_greet_eq greet_def Greeter_def)
  have s: "''Greeter'' \<in> svc_Name ` set (pkg_Services greet)"
    by (simp add: greet_def Greeter_def)
  from h a b c d s show ?thesis by blast
qed

section \<open>Finding a service, a message, an RPC\<close>

lemma Service_loop_first:
  "name \<notin> svc_Name ` set pre \<Longrightarrow> svc_Name s = name \<Longrightarrow>
   Service_loop name (pre @ s # post) = Ok s"
  by (induction pre) auto

lemma Service_loop_none:
  "name \<notin> svc_Name ` set svcs \<Longrightarrow>
   Service_loop name svcs = Fail (Wrapf_not_found (sentinel ErrInvalidServiceName) name)"
  by (induction svcs) auto

lemma Message_loop_first:
  "name \<notin> msg_Name ` set pre \<Longrightarrow> msg_Name m = name \<Longrightarrow>
   Message_loop name (pre @ m # post) = Ok m"
  by (induction pre) auto

lemma Message_loop_none:
  "name \<notin> msg_Name ` set msgs \<Longrightarrow>
   Message_loop name msgs = Fail (Wrapf_not_found (sentinel ErrInvalidMessageName) name)"
  by (induction msgs) auto

lemma RPC_loop_first:
  "name \<notin> rpc_Name ` set pre \<Longrightarrow> rpc_Name r = name \<Longrightarrow>
   RPC_loop name (pre @ r # post) = Ok r"
  by (induction pre) auto

lemma RPC_loop_none:
  "name \<notin> rpc_Name ` set rpcs \<Longrightarrow>
   RPC_loop name rpcs = Fail (Wrapf_not_found (sentinel ErrInvalidRPCName) name)"
  by (induction rpcs) auto

text \<open>
  C5. Whenever the list in scope is available (the services or the messages of the current
  package, the RPCs of the current service), Service, Message and RPC return the element
  that stands first among those bearing the name that was asked for: the one before which
  no element bears it, whatever follows, duplicates included. When no element bears the
  name they return an error of cause ErrInvalidServiceName, ErrInvalidMessageName or
  ErrInvalidRPCName, whose text starts with the name.
\<close>

theorem find_returns_first_match:
  "(Services e = Ok svcs \<longrightarrow>
      (\<forall>pre s post. svcs = pre @ s # post \<and> svc_Name s = name \<and> name \<notin> svc_Name ` set pre
          \<longrightarrow> Service name e = Ok s)
    \<and> (name \<notin> svc_Name ` set svcs \<longrightarrow>
          (\<exists>err. Service name e = Fail err \<and> Cause err = ErrInvalidServiceName
             \<and> Error_text sprintf err = name @ '' not found: invalid service name'')))
 \<and> (Messages e = Ok msgs \<longrightarrow>
      (\<forall>pre m post. msgs = pre @ m # post \<and> msg_Name m = name \<and> name \<notin> msg_Name ` set pre
          \<longrightarrow> Message name e = Ok m)
    \<and> (name \<notin> msg_Name ` set msgs \<longrightarrow>
          (\<exists>err. Message name e = Fail err \<and> Cause err = ErrInvalidMessageName
             \<and> Error_text sprintf err = name @ '' not found: invalid message name'')))
 \<and> (RPCs e = Ok rpcs \<longrightarrow>
      (\<forall>pre r post. rpcs = pre @ r # post \<and> rpc_Name r = name \<and> name \<notin> rpc_Name ` set pre
          \<longrightarrow> RPC name e = Ok r)
    \<and> (name \<notin> rpc_Name ` set rpcs \<longrightarrow>
          (\<exists>err. RPC name e = Fail err \<and> Cause err = ErrInvalidRPCName
             \<and> Error_text sprintf err = name @ '' not found: invalid RPC name'')))"
proof (intro conjI impI allI)
  fix pre s post
  assume "Services e = Ok svcs"
    and "svcs = pre @ s # post \<and> svc_Name s = name \<and> name \<notin> svc_Name ` set pre"
  then show "Service name e = Ok s"
    by (simp add: Service_def Service_loop_first)
next
  assume "Services e = Ok svcs" and "name \<notin> svc_Name ` set svcs"
  then show "\<exists>err. Service name e = Fail err \<and> Cause err = ErrInvalidServiceName
             \<and> Error_text sprintf err = name @ '' not found: invalid service name''"
    by (simp add: Service_def Service_loop_none Error_text_not_found)
next
  fix pre m post
  assume "Messages e = Ok msgs"
    and "msgs = pre @ m # post \<and> msg_Name m = name \<and> name \<notin> msg_Name ` set pre"
  then show "Message name e = Ok m"
    by (simp add: Message_def Message_loop_first)
next
  assume "Messages e = Ok msgs" and "name \<notin> msg_Name ` set msgs"
  then show "\<exists>err. Message name e = Fail err \<and> Cause err = ErrInvalidMessageName
             \<and> Error_text sprintf err = name @ '' not found: invalid message name''"
    by (simp add: Message_def Message_loop_none Error_text_not_found)
next
  fix pre r post
  assume "RPCs e = Ok rpcs"
    and "rpcs = pre @ r # post \<and> rpc_Name r = name \<and> name \<notin> rpc_Name ` set pre"
  then show "RPC name e = Ok r"
    by (simp add: RPC_def RPC_loop_first)
next
  assume "RPCs e = Ok rpcs" and "name \<notin> rpc_Name ` set rpcs"
  then show "\<exists>err. RPC name e = Fail err \<and> Cause err = ErrInvalidRPCName
             \<and> Error_text sprintf err = name @ '' not found: invalid RPC name''"
    by (simp add: RPC_def RPC_loop_none Error_text_not_found)
qed

lemma env_dup_eq:
  "env_dup = (Env_literal [pkg_dup])\<lparr>currentPackage := ''dup'', currentService := ''S'',
      cache_pkg := [''dup'' \<mapsto> pkg_dup]\<rparr>"
  by (simp add: env_dup_def op_defs Env_literal_def pkg_dup_def)

lemma env_dup_scopes:
  "Services env_dup = Ok (pkg_Services pkg_dup)"
  "Messages env_dup = Ok (pkg_Messages pkg_dup)"
  "RPCs env_dup = Ok [\<lparr>rpc_Name = ''R'', rpc_body = 1\<rparr>, \<lparr>rpc_Name = ''R'', rpc_body = 2\<rparr>]"
  by (simp_all add: env_dup_eq Services_def Messages_def RPCs_def Service_def
      HasCurrentPackage_def HasCurrentService_def Env_literal_def pkg_dup_def)

theorem find_returns_first_match_witness:
  "Services env_dup = Ok [\<lparr>svc_Name = ''S'',
                            svc_RPCs = [\<lparr>rpc_Name = ''R'', rpc_body = 1\<rparr>,
                                        \<lparr>rpc_Name = ''R'', rpc_body = 2\<rparr>],
                            svc_body = 1\<rparr>,
                          \<lparr>svc_Name = ''S'', svc_RPCs = [], svc_body = 2\<rparr>]
   \<and> Service ''S'' env_dup = Ok \<lparr>svc_Name = ''S'',
                            svc_RPCs = [\<lparr>rpc_Name = ''R'', rpc_body = 1\<rparr>,
                                        \<lparr>rpc_Name = ''R'', rpc_body = 2\<rparr>],
                            svc_body = 1\<rparr>
   \<and> (\<exists>err. Service ''T'' env_dup = Fail err \<and> Cause err = ErrInvalidServiceName
         \<and> Error_text id err = ''T not found: invalid service name'')
   \<and> Messages env_dup = Ok [\<lparr>msg_Name = ''M'', msg_body = 1\<rparr>, \<lparr>msg_Name = ''M'', msg_body = 2\<rparr>]
   \<and> Message ''M'' env_dup = Ok \<lparr>msg_Name = ''M'', msg_body = 1\<rparr>
   \<and> (\<exists>err. Message ''N'' env_dup = Fail err \<and> Cause err = ErrInvalidMessageName
         \<and> Error_text id err = ''N not found: invalid message name'')
   \<and> RPCs env_dup = Ok [\<lparr>rpc_Name = ''R'', rpc_body = 1\<rparr>, \<lparr>rpc_Name = ''R'', rpc_body = 2\<rparr>]
   \<and> RPC ''R'' env_dup = Ok \<lparr>rpc_Name = ''R'', rpc_body = 1\<rparr>
   \<and> (\<exists>err. RPC ''Missing'' env_dup = Fail err \<and> Cause err = ErrInvalidRPCName
         \<and> Error_text id err = ''Missing not found: invalid RPC name'')"
proof -
  let ?r1 = "\<lparr>rpc_Name = ''R'', rpc_body = 1\<rparr>" and ?r2 = "\<lparr>rpc_Name = ''R'', rpc_body = 2\<rparr>"
  let ?s1 = "\<lparr>svc_Name = ''S'', svc_RPCs = [?r1, ?r2], svc_body = 1\<rparr>"
  let ?s2 = "\<lparr>svc_Name = ''S'', svc_RPCs = [], svc_body = 2\<rparr>"
  let ?m1 = "\<lparr>msg_Name = ''M'', msg_body = 1\<rparr>" and ?m2 = "\<lparr>msg_Name = ''M'', msg_body = 2\<rparr>"
  have sv: "Services env_dup = Ok [?s1, ?s2]"
    and ms: "Messages env_dup = Ok [?m1, ?m2]"
    and rp: "RPCs env_dup = Ok [?r1, ?r2]"
    by (simp_all add: env_dup_scopes pkg_dup_def)
  have s_first: "Service ''S'' env_dup = Ok ?s1"
  proof (rule find_returns_first_match [THEN conjunct1, THEN mp, THEN conjunct1,
        THEN spec, THEN spec, THEN spec, THEN mp])
    show "Services env_dup = Ok [?s1, ?s2]" by (rule sv)
    show "[?s1, ?s2] = [] @ ?s1 # [?s2] \<and> svc_Name ?s1 = ''S'' \<and> ''S'' \<notin> svc_Name ` set []"
      by simp
  qed
  have s_none: "\<exists>err. Service ''T'' env_dup = Fail err \<and> Cause err = ErrInvalidServiceName
         \<and> Error_text id err = ''T'' @ '' not found: invalid service name''"
  proof (rule find_returns_first_match [THEN conjunct1, THEN mp, THEN conjunct2, THEN mp])
    show "Services env_dup = Ok [?s1, ?s2]" by (rule sv)
    show "''T'' \<notin> svc_Name ` set [?s1, ?s2]" by simp
  qed
  have m_first: "Message ''M'' env_dup = Ok ?m1"
  proof (rule find_returns_first_match [THEN conjunct2, THEN conjunct1, THEN mp, THEN conjunct1,
        THEN spec, THEN spec, THEN spec, THEN mp])
    show "Messages env_dup = Ok [?m1, ?m2]" by (rule ms)
    show "[?m1, ?m2] = [] @ ?m1 # [?m2] \<and> msg_Name ?m1 = ''M'' \<and> ''M'' \<notin> msg_Name ` set []"
      by simp
  qed
  have m_none: "\<exists>err. Message ''N'' env_dup = Fail err \<and> Cause err = ErrInvalidMessageName
         \<and> Error_text id err = ''N'' @ '' not found: invalid message name''"
  proof (rule find_returns_first_match [THEN conjunct2, THEN conjunct1, THEN mp,
        THEN conjunct2, THEN mp])
    show "Messages env_dup = Ok [?m1, ?m2]" by (rule ms)
    show "''N'' \<notin> msg_Name ` set [?m1, ?m2]" by simp
  qed
  have r_first: "RPC ''R'' env_dup = Ok ?r1"
  proof (rule find_returns_first_match [THEN conjunct2, THEN conjunct2, THEN mp, THEN conjunct1,
        THEN spec, THEN spec, THEN spec, THEN mp])
    show "RPCs env_dup = Ok [?r1, ?r2]" by (rule rp)
    show "[?r1, ?r2] = [] @ ?r1 # [?r2] \<and> rpc_Name ?r1 = ''R'' \<and> ''R'' \<notin> rpc_Name ` set []"
      by simp
  qed
  have r_none: "\<exists>err. RPC ''Missing'' env_dup = Fail err \<and> Cause err = ErrInvalidRPCName
         \<and> Error_text id err = ''Missing'' @ '' not found: invalid RPC name''"
  proof (rule find_returns_first_match [THEN conjunct2, THEN conjunct2, THEN mp,
        THEN conjunct2, THEN mp])
    show "RPCs env_dup = Ok [?r1, ?r2]" by (rule rp)
    show "''Missing'' \<notin> rpc_Name ` set [?r1, ?r2]" by simp
  qed
  from s_none have s_none': "\<exists>err. Service ''T'' env_dup = Fail err
      \<and> Cause err = ErrInvalidServiceName
      \<and> Error_text id err = ''T not found: invalid service name''" by simp
  from m_none have m_none': "\<exists>err. Message ''N'' env_dup = Fail err
      \<and> Cause err = ErrInvalidMessageName
      \<and> Error_text id err = ''N not found: invalid message name''" by simp
  from r_none have r_none': "\<exists>err. RPC ''Missing'' env_dup = Fail err
      \<and> Cause err = ErrInvalidRPCName
      \<and> Error_text id err = ''Missing not found: invalid RPC name''" by simp
  from sv ms rp s_first m_first r_first s_none' m_none' r_none' show ?thesis
    by blast
qed

section \<open>Construction from a flat list of services\<close>

lemma New_loop_Ok:
  "\<exists>e' hp'. New_loop hs hp e = (Ok e', hp')
     \<and> pkgs e' = pkgs e \<and> currentPackage e' = currentPackage e
     \<and> currentService e' = currentService e \<and> cache_pkg e' = cache_pkg e
     \<and> cache_pkgList e' = cache_pkgList e"
proof (induction hs arbitrary: hp e)
  case Nil
  show ?case by simp
next
  case (Cons h hs)
  let ?hp = "hp @ [\<lparr>Key = Key h, Val = Val h\<rparr>]"
  let ?e = "e\<lparr>headers := AList.update (Key (?hp ! length hp)) (length hp) (headers e)\<rparr>"
  have step: "New_loop (h # hs) hp e = New_loop hs ?hp ?e"
    by (simp add: AddHeader_def Let_def)
  from Cons.IH [of ?hp ?e] show ?case
    unfolding step by simp
qed

lemma New_Ok:
  "\<exists>e hp'. New ps dh hp = (Ok e, hp')
     \<and> pkgs e = ps \<and> currentPackage e = '''' \<and> currentService e = ''''
     \<and> cache_pkg e = Map.empty"
  using New_loop_Ok [of dh hp "Env_literal ps"]
  by (auto simp: New_def Env_literal_def)

lemma NewFromServices_run:
  "\<exists>e0 hp'. New [\<lparr>pkg_Name = ''default'', pkg_Services = svcs, pkg_Messages = msgs\<rparr>] dh hp
        = (Ok e0, hp')
     \<and> pkgs e0 = [\<lparr>pkg_Name = ''default'', pkg_Services = svcs, pkg_Messages = msgs\<rparr>]
     \<and> currentService e0 = ''''
     \<and> NewFromServices svcs msgs dh hp =
         (Ok (e0\<lparr>currentPackage := ''default'',
                 cache_pkg := [''default'' \<mapsto>
                   \<lparr>pkg_Name = ''default'', pkg_Services = svcs, pkg_Messages = msgs\<rparr>]\<rparr>), hp')"
proof -
  let ?p = "\<lparr>pkg_Name = ''default'', pkg_Services = svcs, pkg_Messages = msgs\<rparr>"
  obtain e0 hp' where new: "New [?p] dh hp = (Ok e0, hp')"
    and e0: "pkgs e0 = [?p]" "currentPackage e0 = ''''" "currentService e0 = ''''"
      "cache_pkg e0 = Map.empty"
    using New_Ok [of "[?p]" dh hp] by blast
  let ?e = "e0\<lparr>currentPackage := ''default'', cache_pkg := [''default'' \<mapsto> ?p]\<rparr>"
  have use: "UsePackage ''default'' e0 = (Ok (), ?e)"
    using e0 by (simp add: UsePackage_def Packages_def)
  have "NewFromServices svcs msgs dh hp = (Ok ?e, hp')"
    using new e0 use by (simp add: NewFromServices_def)
  with new e0 show ?thesis by blast
qed

text \<open>
  C6. For all services, messages and default headers (and whatever the heap holds),
  NewFromServices returns an environment: it neither panics nor returns an error. The
  catalog of that environment is the one package named \<open>default\<close> that holds the given
  services and messages, the current package is \<open>default\<close>, no service is selected,
  the cache holds the package under \<open>default\<close>, and Services and Messages return the
  given lists.
\<close>

theorem NewFromServices_default:
  "\<exists>e hp'. NewFromServices svcs msgs dh hp = (Ok e, hp')
     \<and> pkgs e = [\<lparr>pkg_Name = ''default'', pkg_Services = svcs, pkg_Messages = msgs\<rparr>]
     \<and> currentPackage e = ''default'' \<and> currentService e = ''''
     \<and> cache_pkg e = [''default'' \<mapsto>
           \<lparr>pkg_Name = ''default'', pkg_Services = svcs, pkg_Messages = msgs\<rparr>]
     \<and> Services e = Ok svcs \<and> Messages e = Ok msgs"
proof -
  let ?p = "\<lparr>pkg_Name = ''default'', pkg_Services = svcs, pkg_Messages = msgs\<rparr>"
  from NewFromServices_run [of svcs msgs dh hp] obtain e0 hp'
    where e0: "pkgs e0 = [?p]" "currentService e0 = ''''"
      and run: "NewFromServices svcs msgs dh hp =
         (Ok (e0\<lparr>currentPackage := ''default'', cache_pkg := [''default'' \<mapsto> ?p]\<rparr>), hp')"
    by blast
  let ?e = "e0\<lparr>currentPackage := ''default'', cache_pkg := [''default'' \<mapsto> ?p]\<rparr>"
  have "pkgs ?e = [?p] \<and> currentPackage ?e = ''default'' \<and> currentService ?e = ''''
     \<and> cache_pkg ?e = [''default'' \<mapsto> ?p]
     \<and> Services ?e = Ok svcs \<and> Messages ?e = Ok msgs"
    using e0 by (simp add: Services_def Messages_def HasCurrentPackage_def)
  with run show ?thesis by blast
qed

section \<open>Invariants of the reachable environments\<close>

lemma UsePackage_snd_cases:
  "snd (UsePackage name e) = e
   \<or> (\<exists>p\<in>set (pkgs e). pkg_Name p = name \<and>
        snd (UsePackage name e) =
          e\<lparr>currentPackage := name, cache_pkg := (cache_pkg e)(name \<mapsto> p)\<rparr>)"
  using UsePackage_cases [of name e] by auto

lemma UseService_loop_snd:
  "snd (UseService_loop name svcs e) = e
   \<or> snd (UseService_loop name svcs e) = e\<lparr>currentService := name\<rparr>"
  by (induction svcs) auto

lemma UseService_resolve_snd:
  "snd (UseService_resolve name e) = e
   \<or> (currentPackage e \<noteq> '''' \<and> cache_pkg e (currentPackage e) \<noteq> None
       \<and> snd (UseService_resolve name e) = e\<lparr>currentService := name\<rparr>)"
  using UseService_loop_snd [of name _ e]
  by (auto simp: UseService_resolve_def Services_def HasCurrentPackage_def
      split: option.splits)

lemma UseService_snd_cases:
  "\<exists>e1. (e1 = e \<or> (\<exists>n. e1 = snd (UsePackage n e)))
     \<and> (snd (UseService name e) = e1
         \<or> (currentPackage e1 \<noteq> '''' \<and> cache_pkg e1 (currentPackage e1) \<noteq> None
              \<and> snd (UseService name e) = e1\<lparr>currentService := name\<rparr>))"
proof (cases "currentPackage e = ''''")
  case False
  then have "UseService name e = UseService_resolve name e"
    by (simp add: UseService_def)
  with UseService_resolve_snd [of name e] show ?thesis by auto
next
  case True
  show ?thesis
  proof (cases "length (SplitN_dot_2 name) \<noteq> 2")
    case True
    with \<open>currentPackage e = ''''\<close> have "snd (UseService name e) = e"
      by (simp add: UseService_def Let_def)
    then show ?thesis by auto
  next
    case False
    let ?n = "SplitN_dot_2 name ! 0"
    obtain r e1 where up: "UsePackage ?n e = (r, e1)" by (cases "UsePackage ?n e")
    then have e1: "e1 = snd (UsePackage ?n e)" by simp
    show ?thesis
    proof (cases r)
      case (Ok u)
      with up False \<open>currentPackage e = ''''\<close>
      have "UseService name e = UseService_resolve name e1"
        by (simp add: UseService_def Let_def)
      with UseService_resolve_snd [of name e1] e1 show ?thesis by auto
    next
      case (Fail err)
      with up False \<open>currentPackage e = ''''\<close> have "snd (UseService name e) = e1"
        by (simp add: UseService_def Let_def)
      with e1 show ?thesis by auto
    next
      case Panic
      with up False \<open>currentPackage e = ''''\<close> have "snd (UseService name e) = e1"
        by (simp add: UseService_def Let_def)
      with e1 show ?thesis by auto
    qed
  qed
qed

lemma cached_UsePackage:
  assumes "currentPackage e \<noteq> '''' \<longrightarrow> cache_pkg e (currentPackage e) \<noteq> None"
  shows "currentPackage (snd (UsePackage name e)) \<noteq> '''' \<longrightarrow>
         cache_pkg (snd (UsePackage name e)) (currentPackage (snd (UsePackage name e))) \<noteq> None"
  using assms UsePackage_snd_cases [of name e] by auto

lemma cached_UseService:
  assumes "currentPackage e \<noteq> '''' \<longrightarrow> cache_pkg e (currentPackage e) \<noteq> None"
  shows "currentPackage (snd (UseService name e)) \<noteq> '''' \<longrightarrow>
         cache_pkg (snd (UseService name e)) (currentPackage (snd (UseService name e))) \<noteq> None"
  using assms UseService_snd_cases [of e name] cached_UsePackage [of e]
  by auto

lemma reachable_cached:
  "reachable e \<Longrightarrow> currentPackage e \<noteq> '''' \<longrightarrow> cache_pkg e (currentPackage e) \<noteq> None"
proof (induction rule: reachable.induct)
  case (reach_New ps defaultHeaders hp e hp')
  then show ?case using New_Ok [of ps defaultHeaders hp] by auto
next
  case (reach_NewFromServices svcs msgs defaultHeaders hp e hp')
  then show ?case using NewFromServices_run [of svcs msgs defaultHeaders hp] by auto
next
  case (reach_UsePackage e name)
  from reach_UsePackage.IH show ?case by (rule cached_UsePackage)
next
  case (reach_UseService e name)
  from reach_UseService.IH show ?case by (rule cached_UseService)
next
  case (reach_AddHeader e h hp)
  then show ?case by (simp add: AddHeader_def)
next
  case (reach_RemoveHeader e key)
  then show ?case by (simp add: RemoveHeader_def)
qed

lemma Service_loop_no_Panic: "Service_loop name svcs \<noteq> Panic"
  by (induction svcs) auto

lemma Message_loop_no_Panic: "Message_loop name msgs \<noteq> Panic"
  by (induction msgs) auto

lemma RPC_loop_no_Panic: "RPC_loop name rpcs \<noteq> Panic"
  by (induction rpcs) auto

lemma UseService_loop_no_Panic: "fst (UseService_loop name svcs e) \<noteq> Panic"
  by (induction svcs) auto

lemma cached_no_Panic:
  assumes "currentPackage e \<noteq> '''' \<longrightarrow> cache_pkg e (currentPackage e) \<noteq> None"
  shows "Services e \<noteq> Panic" "Messages e \<noteq> Panic" "Service name e \<noteq> Panic"
    "Message name e \<noteq> Panic" "RPCs e \<noteq> Panic" "RPC name e \<noteq> Panic"
    "fst (UseService_resolve name e) \<noteq> Panic"
proof -
  show s: "Services e \<noteq> Panic" and m: "Messages e \<noteq> Panic"
    using assms by (auto simp: Services_def Messages_def HasCurrentPackage_def)
  show sv: "Service n e \<noteq> Panic" for n
    using s Service_loop_no_Panic by (auto simp: Service_def split: result.splits)
  show "Message name e \<noteq> Panic"
    using m Message_loop_no_Panic by (auto simp: Message_def split: result.splits)
  show r: "RPCs e \<noteq> Panic"
    using sv [of "currentService e"] by (auto simp: RPCs_def split: result.splits)
  show "RPC name e \<noteq> Panic"
    using r RPC_loop_no_Panic by (auto simp: RPC_def split: result.splits)
  show "fst (UseService_resolve name e) \<noteq> Panic"
    using s UseService_loop_no_Panic
    by (auto simp: UseService_resolve_def split: result.splits)
qed

lemma UsePackage_no_Panic: "fst (UsePackage name e) \<noteq> Panic"
  using UsePackage_cases [of name e] by auto

lemma cached_UseService_no_Panic:
  assumes "currentPackage e \<noteq> '''' \<longrightarrow> cache_pkg e (currentPackage e) \<noteq> None"
  shows "fst (UseService name e) \<noteq> Panic"
proof (cases "currentPackage e = ''''")
  case False
  then have "UseService name e = UseService_resolve name e"
    by (simp add: UseService_def)
  with cached_no_Panic(7) [OF assms] show ?thesis by simp
next
  case True
  let ?n = "SplitN_dot_2 name ! 0"
  obtain r e1 where up: "UsePackage ?n e = (r, e1)" by (cases "UsePackage ?n e")
  then have e1: "e1 = snd (UsePackage ?n e)" and r: "r = fst (UsePackage ?n e)" by simp_all
  have "fst (UseService_resolve name e1) \<noteq> Panic"
    unfolding e1 by (rule cached_no_Panic(7) [OF cached_UsePackage [OF assms]])
  moreover have "r \<noteq> Panic" unfolding r by (rule UsePackage_no_Panic)
  ultimately show ?thesis
    using True up by (auto simp: UseService_def Let_def split: result.splits)
qed

text \<open>
  C10. In every reachable environment the cache holds an entry under the current package
  whenever one is selected, so the reads of the cache in Services and Messages never meet
  nil: neither of them panics, nor do Service, Message, RPCs, RPC and UseService, which
  go through them.
\<close>

theorem reachable_cache_holds_current:
  assumes "reachable e"
  shows "(currentPackage e \<noteq> '''' \<longrightarrow> currentPackage e \<in> dom (cache_pkg e))
       \<and> Services e \<noteq> Panic \<and> Messages e \<noteq> Panic
       \<and> Service name e \<noteq> Panic \<and> Message name e \<noteq> Panic
       \<and> RPCs e \<noteq> Panic \<and> RPC name e \<noteq> Panic
       \<and> fst (UseService name e) \<noteq> Panic"
proof -
  note c = reachable_cached [OF assms]
  from c have "currentPackage e \<noteq> '''' \<longrightarrow> currentPackage e \<in> dom (cache_pkg e)"
    by auto
  with cached_no_Panic [OF c] cached_UseService_no_Panic [OF c] show ?thesis
    by blast
qed

lemma pkgs_UsePackage: "pkgs (snd (UsePackage name e)) = pkgs e"
  using UsePackage_snd_cases [of name e] by auto

lemma pkgs_UseService: "pkgs (snd (UseService name e)) = pkgs e"
  using UseService_snd_cases [of e name] pkgs_UsePackage [of _ e] by auto

lemma ordered_UsePackage:
  assumes "'''' \<notin> pkg_Name ` set (pkgs e)"
    and "currentService e \<noteq> '''' \<longrightarrow> currentPackage e \<noteq> ''''"
  shows "currentService (snd (UsePackage name e)) \<noteq> '''' \<longrightarrow>
         currentPackage (snd (UsePackage name e)) \<noteq> ''''"
  using assms UsePackage_snd_cases [of name e] by (force simp: image_iff)

lemma ordered_UseService:
  assumes "'''' \<notin> pkg_Name ` set (pkgs e)"
    and "currentService e \<noteq> '''' \<longrightarrow> currentPackage e \<noteq> ''''"
  shows "currentService (snd (UseService name e)) \<noteq> '''' \<longrightarrow>
         currentPackage (snd (UseService name e)) \<noteq> ''''"
  using UseService_snd_cases [of e name] ordered_UsePackage [OF assms] assms(2)
  by auto

lemma reachable_ordered:
  "reachable e \<Longrightarrow> '''' \<notin> pkg_Name ` set (pkgs e) \<longrightarrow>
     (currentService e \<noteq> '''' \<longrightarrow> currentPackage e \<noteq> '''')"
proof (induction rule: reachable.induct)
  case (reach_New ps defaultHeaders hp e hp')
  then show ?case using New_Ok [of ps defaultHeaders hp] by auto
next
  case (reach_NewFromServices svcs msgs defaultHeaders hp e hp')
  then show ?case using NewFromServices_run [of svcs msgs defaultHeaders hp] by auto
next
  case (reach_UsePackage e name)
  then show ?case using ordered_UsePackage [of e name] by (simp add: pkgs_UsePackage)
next
  case (reach_UseService e name)
  then show ?case using ordered_UseService [of e name] by (simp add: pkgs_UseService)
next
  case (reach_AddHeader e h hp)
  then show ?case by (simp add: AddHeader_def)
next
  case (reach_RemoveHeader e key)
  then show ?case by (simp add: RemoveHeader_def)
qed

text \<open>
  C9, as the code has it. Over a catalog in which no package has the empty name, every
  reachable environment that has a current service has a current package.
\<close>

theorem service_implies_package:
  assumes "reachable e" and "'''' \<notin> pkg_Name ` set (pkgs e)"
  shows "currentService e \<noteq> '''' \<longrightarrow> currentPackage e \<noteq> ''''"
  using reachable_ordered [OF assms(1)] assms(2) by blast

lemma reachable_Env_literal: "reachable (Env_literal ps)"
proof -
  have "New ps [] [] = (Ok (Env_literal ps), [])" by (simp add: New_def)
  then show ?thesis by (rule reach_New)
qed

lemma reachable_env_Greeter: "reachable env_Greeter"
  unfolding env_Greeter_def env_greet_def
  by (intro reach_UseService reach_UsePackage reachable_Env_literal)

lemma reachable_env_dup: "reachable env_dup"
  unfolding env_dup_def
  by (intro reach_UseService reach_UsePackage reachable_Env_literal)

text \<open>
  Over the example catalog, which holds a package with the empty name: after
  UsePackage("greet"), UseService("Greeter") and UsePackage(""), the current service is
  \<open>Greeter\<close> and no package is selected.
\<close>

theorem service_without_package_counterexample:
  "reachable env_anon \<and> currentService env_anon = ''Greeter'' \<and> currentPackage env_anon = ''''"
proof -
  have "reachable env_anon"
    unfolding env_anon_def by (intro reach_UsePackage reachable_env_Greeter)
  moreover have "currentService env_anon = ''Greeter'' \<and> currentPackage env_anon = ''''"
    by (simp add: env_anon_def env_Greeter_eq UsePackage_def Packages_def example_defs)
  ultimately show ?thesis by blast
qed

theorem service_implies_package_witness:
  "reachable env_dup \<and> '''' \<notin> pkg_Name ` set (pkgs env_dup)
   \<and> currentService env_dup = ''S'' \<and> currentService env_dup \<noteq> ''''
   \<and> currentPackage env_dup \<noteq> ''''"
proof -
  have n: "'''' \<notin> pkg_Name ` set (pkgs env_dup)"
    by (simp add: env_dup_eq Env_literal_def pkg_dup_def)
  have v: "currentService env_dup = ''S''"
    by (simp add: env_dup_eq)
  then have v': "currentService env_dup \<noteq> ''''"
    by simp
  from service_implies_package [OF reachable_env_dup n] v'
  have "currentPackage env_dup \<noteq> ''''" by blast
  with reachable_env_dup n v v' show ?thesis by blast
qed

theorem reachable_cache_holds_current_witness:
  "reachable env_Greeter \<and> currentPackage env_Greeter = ''greet''
   \<and> currentPackage env_Greeter \<in> dom (cache_pkg env_Greeter)
   \<and> Services env_Greeter \<noteq> Panic \<and> Messages env_Greeter \<noteq> Panic
   \<and> Service ''Greeter'' env_Greeter \<noteq> Panic \<and> Message ''Greeter'' env_Greeter \<noteq> Panic
   \<and> RPCs env_Greeter \<noteq> Panic \<and> RPC ''Greeter'' env_Greeter \<noteq> Panic
   \<and> fst (UseService ''Greeter'' env_Greeter) \<noteq> Panic"
proof -
  have c: "currentPackage env_Greeter = ''greet''"
    by (simp add: env_Greeter_eq)
  then have c': "currentPackage env_Greeter \<noteq> ''''"
    by simp
  from reachable_cache_holds_current [OF reachable_env_Greeter, of "''Greeter''"]
    reachable_env_Greeter c c'
  show ?thesis by blast
qed

section \<open>The header table\<close>

lemma env_hdrs_headers: "headers env_hdrs = [(''b'', 0), (''a'', 1)]"
  by (simp add: env_hdrs_def AddHeader_def hdr_heap_def Env_literal_def)

lemma Header_eta: "\<lparr>Key = Key h, Val = Val h\<rparr> = (h :: Header)"
  by simp

lemma Headers_range_valid:
  "\<forall>r\<in>snd ` set al. r < length hp \<Longrightarrow>
   Headers_range al hp acc =
     (Ok (acc @ [length hp ..< length hp + length al]), hp @ map (\<lambda>(k, r). hp ! r) al)"
proof (induction al arbitrary: hp acc)
  case Nil
  show ?case by simp
next
  case (Cons kv al)
  obtain k v where kv: "kv = (k, v)" by (cases kv)
  from Cons.prems kv have v: "v < length hp" and rest: "\<forall>r\<in>snd ` set al. r < length hp"
    by auto
  let ?hp = "hp @ [hp ! v]"
  from rest have rest': "\<forall>r\<in>snd ` set al. r < length ?hp" by auto
  have same: "map (\<lambda>(k, r). ?hp ! r) al = map (\<lambda>(k, r). hp ! r) al"
    using rest by (auto simp: nth_append)
  have upt: "[length hp ..< length hp + Suc (length al)]
             = length hp # [Suc (length hp) ..< Suc (length hp) + length al]"
    using upt_conv_Cons [of "length hp" "length hp + Suc (length al)"] by simp
  have "Headers_range (kv # al) hp acc = Headers_range al ?hp (acc @ [length hp])"
    using v kv by (simp add: Header_eta)
  also have "\<dots> = (Ok ((acc @ [length hp]) @ [length ?hp ..< length ?hp + length al]),
                   ?hp @ map (\<lambda>(k, r). ?hp ! r) al)"
    by (rule Cons.IH [OF rest'])
  finally show ?case
    unfolding same using kv upt by simp
qed

lemma map_sort_key:
  "map g (sort_key (\<lambda>x. f (g x)) xs) = sort_key f (map g xs)"
proof (induction xs)
  case Nil
  show ?case by simp
next
  case (Cons x xs)
  have ins: "map g (insort_key (\<lambda>x. f (g x)) a ys) = insort_key f (g a) (map g ys)" for a ys
    by (induction ys) auto
  from Cons show ?case by (simp add: ins)
qed

lemma map_nth_append_upt:
  "map (\<lambda>i. (xs @ ys) ! i) [length xs ..< length xs + length ys] = ys"
  by (rule nth_equalityI) (auto simp: nth_append)

lemma Headers_run:
  assumes "\<forall>r\<in>snd ` set (headers e). r < length hp"
  shows "\<exists>hs. Headers hp e = (Ok hs, hp @ map (\<lambda>(k, r). hp ! r) (headers e))
     \<and> set hs = {length hp ..< length hp + length (headers e)} \<and> distinct hs
     \<and> sorted (map (\<lambda>r. Key ((hp @ map (\<lambda>(k, r). hp ! r) (headers e)) ! r)) hs)
     \<and> map (\<lambda>r. (hp @ map (\<lambda>(k, r). hp ! r) (headers e)) ! r) hs
         = sort_key Key (map (\<lambda>(k, r). hp ! r) (headers e))"
proof -
  let ?copies = "map (\<lambda>(k, r). hp ! r) (headers e)"
  let ?hp = "hp @ ?copies"
  let ?idx = "[length hp ..< length hp + length (headers e)]"
  let ?hs = "sort_key (\<lambda>r. Key (?hp ! r)) ?idx"
  have run: "Headers hp e = (Ok ?hs, ?hp)"
    using Headers_range_valid [OF assms, of "[]"] by (simp add: Headers_def)
  have idx: "map (\<lambda>i. ?hp ! i) ?idx = ?copies"
    using map_nth_append_upt [of hp ?copies] by simp
  have vals: "map (\<lambda>r. ?hp ! r) ?hs = sort_key Key ?copies"
    using map_sort_key [of "\<lambda>r. ?hp ! r" Key ?idx] idx by simp
  have "set ?hs = {length hp ..< length hp + length (headers e)}" "distinct ?hs"
    "sorted (map (\<lambda>r. Key (?hp ! r)) ?hs)"
    by simp_all
  with run vals show ?thesis by blast
qed

lemma sort_key_order_independent:
  assumes "set xs = set ys" "distinct (map f xs)" "distinct (map f ys)"
  shows "sort_key f xs = sort_key f ys"
proof -
  let ?s = "sort_key f xs" and ?t = "sort_key f ys"
  have inj: "inj_on f (set xs)"
    using assms(2) by (simp add: distinct_map)
  have "distinct (map f ?s)" "distinct (map f ?t)"
    using assms by (simp_all add: distinct_map)
  moreover have "sorted (map f ?s)" "sorted (map f ?t)"
    by simp_all
  moreover have "set (map f ?s) = set (map f ?t)"
    using assms(1) by simp
  ultimately have "map f ?s = map f ?t"
    by (blast intro: sorted_distinct_set_unique)
  moreover have "inj_on f (set ?s \<union> set ?t)"
    using inj assms(1) by simp
  ultimately show ?thesis
    by (simp add: inj_on_map_eq_map)
qed

text \<open>
  The order of \<^verbatim>\<open>Range\<close> and the stability of the sort do not show in the result
  when every stored header still has the key it was stored under: two tables with the same
  entries in different orders give headers of the same values in the same order.
\<close>

lemma Headers_order_independent:
  assumes valid: "\<forall>r\<in>snd ` set (headers e1). r < length hp"
    and same: "set (headers e1) = set (headers e2)"
    and keys: "distinct (map fst (headers e1))" "distinct (map fst (headers e2))"
    and stored: "\<forall>(k, r)\<in>set (headers e1). Key (hp ! r) = k"
  shows "\<exists>hs1 hp1 hs2 hp2. Headers hp e1 = (Ok hs1, hp1) \<and> Headers hp e2 = (Ok hs2, hp2)
           \<and> map (\<lambda>r. hp1 ! r) hs1 = map (\<lambda>r. hp2 ! r) hs2"
proof -
  let ?c = "\<lambda>e. map (\<lambda>(k, r). hp ! r) (headers e)"
  from valid same have valid2: "\<forall>r\<in>snd ` set (headers e2). r < length hp"
    by simp
  have k: "map Key (?c e) = map fst (headers e)" if "set (headers e) = set (headers e1)" for e
    using stored that by (auto simp: case_prod_beta)
  have "set (?c e1) = set (?c e2)"
    using same by simp
  moreover have "distinct (map Key (?c e1))"
    unfolding k [OF refl] by (rule keys(1))
  moreover have "distinct (map Key (?c e2))"
    unfolding k [OF same [symmetric]] by (rule keys(2))
  ultimately have "sort_key Key (?c e1) = sort_key Key (?c e2)"
    by (rule sort_key_order_independent)
  with Headers_run [OF valid] Headers_run [OF valid2] show ?thesis
    by (metis (no_types, lifting))
qed

text \<open>
  C7. For every header table whose pointers are not nil, Headers returns a slice of
  pointers whose headers are sorted by key in ascending lexical order (the order of Go's
  \<^verbatim>\<open><\<close> on strings) and are, value for value, the stored headers sorted by key.
  The pointers are distinct and new: each lies beyond the heap the call started from, so
  none is a stored pointer, and the old heap is a prefix of the new one. Therefore whatever
  is written afterwards into the returned headers (any heap that differs from the new one
  at returned addresses only, possibly with later allocations), every stored header is
  what it was and a further call of Headers returns headers of the same values. The
  returned slice itself is a value of the call, which the environment does not hold.
\<close>

theorem Headers_sorted_copies:
  assumes "\<forall>r\<in>snd ` set (headers e). r < length hp"
  shows "\<exists>hs hp'. Headers hp e = (Ok hs, hp')
     \<and> sorted (map (\<lambda>r. Key (hp' ! r)) hs)
     \<and> map (\<lambda>r. hp' ! r) hs = sort_key Key (map (\<lambda>(k, r). hp ! r) (headers e))
     \<and> distinct hs \<and> (\<forall>r\<in>set hs. length hp \<le> r \<and> r < length hp')
     \<and> take (length hp) hp' = hp
     \<and> (\<forall>hp''. length hp' \<le> length hp''
              \<and> (\<forall>a<length hp'. a \<notin> set hs \<longrightarrow> hp'' ! a = hp' ! a) \<longrightarrow>
            (\<forall>r\<in>snd ` set (headers e). hp'' ! r = hp ! r)
          \<and> (\<exists>hs2 hp3. Headers hp'' e = (Ok hs2, hp3)
                \<and> map (\<lambda>r. hp3 ! r) hs2 = map (\<lambda>r. hp' ! r) hs))"
proof -
  let ?copies = "map (\<lambda>(k, r). hp ! r) (headers e)"
  let ?hp = "hp @ ?copies"
  from Headers_run [OF assms] obtain hs where run: "Headers hp e = (Ok hs, ?hp)"
    and hs: "set hs = {length hp ..< length hp + length (headers e)}" "distinct hs"
    and srt: "sorted (map (\<lambda>r. Key (?hp ! r)) hs)"
    and vals: "map (\<lambda>r. ?hp ! r) hs = sort_key Key ?copies"
    by blast
  have fresh: "\<forall>r\<in>set hs. length hp \<le> r \<and> r < length ?hp"
    using hs(1) by simp
  have old: "take (length hp) ?hp = hp"
    by simp
  have mut: "(\<forall>r\<in>snd ` set (headers e). hp'' ! r = hp ! r)
          \<and> (\<exists>hs2 hp3. Headers hp'' e = (Ok hs2, hp3)
                \<and> map (\<lambda>r. hp3 ! r) hs2 = map (\<lambda>r. ?hp ! r) hs)"
    if len: "length ?hp \<le> length hp''"
      and agree: "\<forall>a<length ?hp. a \<notin> set hs \<longrightarrow> hp'' ! a = ?hp ! a" for hp''
  proof -
    have stored: "hp'' ! r = hp ! r" if "r \<in> snd ` set (headers e)" for r
    proof -
      from that assms have r: "r < length hp" by blast
      with hs(1) have "r \<notin> set hs" "r < length ?hp" by simp_all
      with agree have "hp'' ! r = ?hp ! r" by blast
      with r show ?thesis by (simp add: nth_append)
    qed
    have valid: "\<forall>r\<in>snd ` set (headers e). r < length hp''"
      using assms len by fastforce
    have same: "map (\<lambda>(k, r). hp'' ! r) (headers e) = ?copies"
    proof (rule map_cong [OF refl])
      fix kr assume "kr \<in> set (headers e)"
      then have "snd kr \<in> snd ` set (headers e)" by (rule imageI)
      then have "hp'' ! snd kr = hp ! snd kr" by (rule stored)
      then show "(case kr of (k, r) \<Rightarrow> hp'' ! r) = (case kr of (k, r) \<Rightarrow> hp ! r)"
        by (simp add: case_prod_beta)
    qed
    from Headers_run [OF valid] obtain hs2
      where r2: "Headers hp'' e = (Ok hs2, hp'' @ map (\<lambda>(k, r). hp'' ! r) (headers e))"
        and v2: "map (\<lambda>r. (hp'' @ map (\<lambda>(k, r). hp'' ! r) (headers e)) ! r) hs2
              = sort_key Key (map (\<lambda>(k, r). hp'' ! r) (headers e))"
      by blast
    note v2
    also have "sort_key Key (map (\<lambda>(k, r). hp'' ! r) (headers e)) = sort_key Key ?copies"
      by (simp only: same)
    also have "\<dots> = map (\<lambda>r. ?hp ! r) hs"
      by (rule vals [symmetric])
    finally have "map (\<lambda>r. (hp'' @ map (\<lambda>(k, r). hp'' ! r) (headers e)) ! r) hs2
            = map (\<lambda>r. ?hp ! r) hs" .
    with r2 have "\<exists>hs2 hp3. Headers hp'' e = (Ok hs2, hp3)
                \<and> map (\<lambda>r. hp3 ! r) hs2 = map (\<lambda>r. ?hp ! r) hs"
      by blast
    with stored show ?thesis by blast
  qed
  from run srt vals hs(2) fresh old mut show ?thesis
    by blast
qed


theorem Headers_sorted_copies_witness:
  "snd ` set (headers env_hdrs) = {0, 1} \<and> length hdr_heap = 3
   \<and> Headers hdr_heap env_hdrs =
        (Ok [4, 3], hdr_heap @ [\<lparr>Key = ''b'', Val = ''1''\<rparr>, \<lparr>Key = ''a'', Val = ''2''\<rparr>])
   \<and> (\<exists>hs2 hp3.
         Headers ((hdr_heap @ [\<lparr>Key = ''b'', Val = ''1''\<rparr>, \<lparr>Key = ''a'', Val = ''2''\<rparr>])
                    [4 := \<lparr>Key = ''zz'', Val = ''changed''\<rparr>]) env_hdrs = (Ok hs2, hp3)
         \<and> map (\<lambda>r. hp3 ! r) hs2 = [\<lparr>Key = ''a'', Val = ''2''\<rparr>, \<lparr>Key = ''b'', Val = ''1''\<rparr>])"
proof -
  let ?hp2 = "hdr_heap @ [\<lparr>Key = ''b'', Val = ''1''\<rparr>, \<lparr>Key = ''a'', Val = ''2''\<rparr>]"
  let ?hp3 = "?hp2[4 := \<lparr>Key = ''zz'', Val = ''changed''\<rparr>]"
  have refs: "snd ` set (headers env_hdrs) = {0, 1}" and len: "length hdr_heap = 3"
    by (simp_all add: env_hdrs_headers hdr_heap_def)
  then have valid: "\<forall>r\<in>snd ` set (headers env_hdrs). r < length hdr_heap"
    by simp
  have run: "Headers hdr_heap env_hdrs = (Ok [4, 3], ?hp2)"
    by (simp add: Headers_def env_hdrs_headers hdr_heap_def)
  from Headers_sorted_copies [OF valid] obtain hs hp'
    where r: "Headers hdr_heap env_hdrs = (Ok hs, hp')"
      and mut: "\<forall>hp''. length hp' \<le> length hp''
              \<and> (\<forall>a<length hp'. a \<notin> set hs \<longrightarrow> hp'' ! a = hp' ! a) \<longrightarrow>
            (\<forall>r\<in>snd ` set (headers env_hdrs). hp'' ! r = hdr_heap ! r)
          \<and> (\<exists>hs2 hp3. Headers hp'' env_hdrs = (Ok hs2, hp3)
                \<and> map (\<lambda>r. hp3 ! r) hs2 = map (\<lambda>r. hp' ! r) hs)"
    by blast
  from r run have hs: "hs = [4, 3]" and hp': "hp' = ?hp2" by simp_all
  have "length ?hp2 \<le> length ?hp3 \<and> (\<forall>a<length ?hp2. a \<notin> set [4, 3] \<longrightarrow> ?hp3 ! a = ?hp2 ! a)"
    by (simp add: nth_list_update)
  with mut [unfolded hs hp'] have "\<exists>hs2 hp3. Headers ?hp3 env_hdrs = (Ok hs2, hp3)
                \<and> map (\<lambda>r. hp3 ! r) hs2 = map (\<lambda>r. ?hp2 ! r) [4, 3]"
    by blast
  moreover have "map (\<lambda>r. ?hp2 ! r) [4, 3] = [\<lparr>Key = ''a'', Val = ''2''\<rparr>, \<lparr>Key = ''b'', Val = ''1''\<rparr>]"
    by (simp add: hdr_heap_def)
  ultimately have "\<exists>hs2 hp3. Headers ?hp3 env_hdrs = (Ok hs2, hp3)
         \<and> map (\<lambda>r. hp3 ! r) hs2 = [\<lparr>Key = ''a'', Val = ''2''\<rparr>, \<lparr>Key = ''b'', Val = ''1''\<rparr>]"
    by simp
  with refs len run show ?thesis by blast
qed

text \<open>
  C8. For a header that is not nil, AddHeader returns without error and the table then
  maps the key of the header to it, whether or not the key was bound before, every other
  key being bound as before. RemoveHeader has no result to fail with: afterwards the key
  is unbound and every other key is bound as before, and when the key was not bound the
  environment is exactly what it was. Neither touches the catalog, the selection or the
  cache.
\<close>

theorem header_store_upsert_delete:
  "(h < length hp \<longrightarrow>
      (\<exists>e'. AddHeader h hp e = (Ok (), e')
         \<and> map_of (headers e') = (map_of (headers e))(Key (hp ! h) \<mapsto> h)
         \<and> pkgs e' = pkgs e \<and> currentPackage e' = currentPackage e
         \<and> currentService e' = currentService e \<and> cache_pkg e' = cache_pkg e))
 \<and> map_of (headers (RemoveHeader key e)) = (map_of (headers e))(key := None)
 \<and> pkgs (RemoveHeader key e) = pkgs e
 \<and> currentPackage (RemoveHeader key e) = currentPackage e
 \<and> currentService (RemoveHeader key e) = currentService e
 \<and> cache_pkg (RemoveHeader key e) = cache_pkg e
 \<and> (key \<notin> fst ` set (headers e) \<longrightarrow> RemoveHeader key e = e)"
  by (simp add: AddHeader_def RemoveHeader_def update_conv' delete_conv')

theorem header_store_upsert_delete_witness:
  "(1::nat) < length hdr_heap \<and> Key (hdr_heap ! 1) = ''a''
   \<and> ''a'' \<notin> fst ` set (headers (snd (AddHeader 0 hdr_heap (Env_literal []))))
   \<and> fst (AddHeader 1 hdr_heap (snd (AddHeader 0 hdr_heap (Env_literal [])))) = Ok ()
   \<and> map_of (headers env_hdrs) ''a'' = Some 1
   \<and> map_of (headers env_hdrs) ''b'' = Some 0
   \<and> 2 < length hdr_heap \<and> Key (hdr_heap ! 2) = ''b''
   \<and> map_of (headers (snd (AddHeader 2 hdr_heap env_hdrs))) ''b'' = Some 2
   \<and> map_of (headers (snd (AddHeader 2 hdr_heap env_hdrs))) ''a'' = Some 1
   \<and> ''c'' \<notin> fst ` set (headers env_hdrs) \<and> RemoveHeader ''c'' env_hdrs = env_hdrs
   \<and> map_of (headers (RemoveHeader ''b'' env_hdrs)) ''b'' = None
   \<and> map_of (headers (RemoveHeader ''b'' env_hdrs)) ''a'' = Some 1"
proof -
  let ?e0 = "snd (AddHeader 0 hdr_heap (Env_literal []))"
  have l1: "(1::nat) < length hdr_heap" and l2: "2 < length hdr_heap"
    and k1: "Key (hdr_heap ! 1) = ''a''" and k2: "Key (hdr_heap ! 2) = ''b''"
    by (simp_all add: hdr_heap_def)
  have e0: "headers ?e0 = [(''b'', 0)]"
    by (simp add: AddHeader_def hdr_heap_def Env_literal_def)
  then have n0: "''a'' \<notin> fst ` set (headers ?e0)" by simp
  from header_store_upsert_delete [where h = 1 and hp = hdr_heap and e = "?e0",
      THEN conjunct1, rule_format, OF l1]
  obtain e' where a1: "AddHeader 1 hdr_heap ?e0 = (Ok (), e')"
    and m1: "map_of (headers e') = (map_of (headers ?e0))(Key (hdr_heap ! 1) \<mapsto> 1)"
    by blast
  from a1 have e': "e' = env_hdrs" by (simp add: env_hdrs_def)
  from a1 have ok1: "fst (AddHeader 1 hdr_heap ?e0) = Ok ()" by simp
  from m1 have m: "map_of (headers env_hdrs) = [''b'' \<mapsto> 0, ''a'' \<mapsto> 1]"
    unfolding e' e0 k1 by simp
  from header_store_upsert_delete [where h = 2 and hp = hdr_heap and e = env_hdrs,
      THEN conjunct1, rule_format, OF l2]
  obtain e2 where a2: "AddHeader 2 hdr_heap env_hdrs = (Ok (), e2)"
    and m2: "map_of (headers e2) = (map_of (headers env_hdrs))(Key (hdr_heap ! 2) \<mapsto> 2)"
    by blast
  from a2 have e2: "e2 = snd (AddHeader 2 hdr_heap env_hdrs)" by simp
  from m2 have m2': "map_of (headers (snd (AddHeader 2 hdr_heap env_hdrs)))
      = [''b'' \<mapsto> 2, ''a'' \<mapsto> 1]"
    unfolding e2 [symmetric] m k2 by auto
  have nc: "''c'' \<notin> fst ` set (headers env_hdrs)"
    by (simp add: env_hdrs_headers)
  from header_store_upsert_delete [where e = env_hdrs and key = "''c''", THEN conjunct2] nc
  have rc: "RemoveHeader ''c'' env_hdrs = env_hdrs"
    by blast
  from header_store_upsert_delete [where e = env_hdrs and key = "''b''", THEN conjunct2]
  have "map_of (headers (RemoveHeader ''b'' env_hdrs))
      = (map_of (headers env_hdrs))(''b'' := None)"
    by blast
  then have rb: "map_of (headers (RemoveHeader ''b'' env_hdrs)) = [''a'' \<mapsto> 1]"
    unfolding m by auto
  have "map_of (headers env_hdrs) ''a'' = Some 1" "map_of (headers env_hdrs) ''b'' = Some 0"
    "map_of (headers (snd (AddHeader 2 hdr_heap env_hdrs))) ''b'' = Some 2"
    "map_of (headers (snd (AddHeader 2 hdr_heap env_hdrs))) ''a'' = Some 1"
    "map_of (headers (RemoveHeader ''b'' env_hdrs)) ''b'' = None"
    "map_of (headers (RemoveHeader ''b'' env_hdrs)) ''a'' = Some 1"
    unfolding m m2' rb by simp_all
  with l1 l2 k1 k2 n0 ok1 nc rc show ?thesis by blast
qed

end
